theory Spec2Isabelle
  imports Complex_Main
begin

section \<open>Message queue manager (src/src/message_queue.py)\<close>

text \<open>
  Timestamps and the clock are Python floats; they are modelled as reals, so the
  arithmetic on them is exact. The concrete inputs used below are small integers and
  halves, on which float arithmetic is exact too.
\<close>

record MQTTMessage =
  topic :: string
  payload :: string
  timestamp :: real
  qos :: int
  retain :: bool
  mid :: "int option"

text \<open>The metadata dictionary \<open>msg_info\<close>: a key that is absent is \<open>None\<close>.\<close>

record msg_info =
  info_timestamp :: "real option"
  info_qos :: "int option"
  info_retain :: "bool option"
  info_mid :: "int option"

text \<open>
  Exceptions are values. \<open>Full\<close> and \<open>Empty\<close> are those of \<open>queue.Queue\<close>,
  \<open>HookFailure\<close> is an exception raised by a registered observer, and
  \<open>OverflowError\<close> is Python's error on converting a too large int to float.
\<close>

datatype exn = Full | Empty | HookFailure | OverflowError

text \<open>
  An observer is user code: it returns or it raises. Each invocation is appended to
  \<open>hook_calls\<close>, the trace of what the observers were told.
\<close>

datatype hook_result = Returns | Raises

datatype hook_call = QueueFullCall int | ErrorCall string | ProcessedCall MQTTMessage

record MessageQueueManager =
  max_queue_size :: int
  max_history :: nat
  incoming_queue :: "MQTTMessage list"
  message_history :: "MQTTMessage list"
  topic_stats :: "(string \<times> nat) list"
  total_messages :: nat
  messages_per_second :: real
  last_message_time :: "real option"
  rate_calculation_window :: nat
  rate_history :: "real list"
  on_message_processed :: "(MQTTMessage \<Rightarrow> hook_result) option"
  on_queue_full :: "(int \<Rightarrow> hook_result) option"
  on_error :: "(string \<Rightarrow> hook_result) option"
  hook_calls :: "hook_call list"

text \<open>
  \<open>__init__\<close>. \<open>message_history\<close> is a \<open>deque(maxlen=max_history)\<close> and
  \<open>rate_history\<close> a \<open>deque(maxlen=rate_calculation_window)\<close>; neither attribute is
  reassigned anywhere, so the two fields serve as the deques' \<open>maxlen\<close>.
  \<open>max_history\<close> is a natural number: \<open>deque\<close> refuses a negative \<open>maxlen\<close>.
  A \<open>max_queue_size\<close> of zero or less makes the queue unbounded.
\<close>

definition new_manager :: "int \<Rightarrow> nat \<Rightarrow> MessageQueueManager" where
  "new_manager mqs mh =
     \<lparr>max_queue_size = mqs, max_history = mh, incoming_queue = [], message_history = [],
      topic_stats = [], total_messages = 0, messages_per_second = 0,
      last_message_time = None, rate_calculation_window = 60, rate_history = [],
      on_message_processed = None, on_queue_full = None, on_error = None,
      hook_calls = []\<rparr>"

text \<open>The defaults of the constructor: \<open>max_queue_size=10000, max_history=1000\<close>.\<close>

definition default_manager :: MessageQueueManager where
  "default_manager = new_manager 10000 1000"

text \<open>
  \<open>deque.append\<close> on a deque with a \<open>maxlen\<close>: the item is appended and, when the
  deque is then longer than \<open>maxlen\<close>, one item is popped from the left.
\<close>

definition deque_append :: "nat \<Rightarrow> 'a list \<Rightarrow> 'a \<Rightarrow> 'a list" where
  "deque_append maxlen xs x = (let ys = xs @ [x] in if maxlen < length ys then tl ys else ys)"

text \<open>
  \<open>Queue.put_nowait\<close> raises \<open>Full\<close> when \<open>maxsize > 0\<close> and the queue holds
  \<open>maxsize\<close> items or more (a \<open>maxsize\<close> of zero or less means unbounded);
  \<open>Queue.get_nowait\<close> raises \<open>Empty\<close> on an empty queue.
\<close>

definition qsize :: "MessageQueueManager \<Rightarrow> int" where
  "qsize st = int (length (incoming_queue st))"

definition queue_full :: "MessageQueueManager \<Rightarrow> bool" where
  "queue_full st = (0 < max_queue_size st \<and> max_queue_size st \<le> qsize st)"

definition put_nowait :: "MQTTMessage \<Rightarrow> MessageQueueManager \<Rightarrow> exn + MessageQueueManager" where
  "put_nowait m st =
     (if queue_full st then Inl Full
      else Inr (st\<lparr>incoming_queue := incoming_queue st @ [m]\<rparr>))"

definition get_nowait :: "MessageQueueManager \<Rightarrow> exn + (MQTTMessage \<times> MessageQueueManager)" where
  "get_nowait st =
     (case incoming_queue st of
        [] \<Rightarrow> Inl Empty
      | m # ms \<Rightarrow> Inr (m, st\<lparr>incoming_queue := ms\<rparr>))"

text \<open>\<open>if self.hook: self.hook(arg)\<close>: an unregistered observer is skipped.\<close>

definition call_hook ::
  "('a \<Rightarrow> hook_result) option \<Rightarrow> 'a \<Rightarrow> ('a \<Rightarrow> hook_call) \<Rightarrow> MessageQueueManager
     \<Rightarrow> hook_result \<times> MessageQueueManager" where
  "call_hook h a tag st =
     (case h of
        None \<Rightarrow> (Returns, st)
      | Some f \<Rightarrow> (f a, st\<lparr>hook_calls := hook_calls st @ [tag a]\<rparr>))"

text \<open>
  The body shared by the \<open>except Exception as e\<close> handlers: log, then
  \<open>if self.on_error: self.on_error(error_msg)\<close>. The call to \<open>on_error\<close> is inside the
  handler, so an exception of \<open>on_error\<close> leaves the enclosing method. The text of
  the message after its fixed prefix is \<open>str(e)\<close> and is not modelled.
\<close>

definition report_error :: "string \<Rightarrow> MessageQueueManager \<Rightarrow> exn option \<times> MessageQueueManager" where
  "report_error msg st =
     (case call_hook (on_error st) msg ErrorCall st of
        (Returns, st1) \<Rightarrow> (None, st1)
      | (Raises, st1) \<Rightarrow> (Some HookFailure, st1))"

definition make_message :: "real \<Rightarrow> string \<Rightarrow> string \<Rightarrow> msg_info \<Rightarrow> MQTTMessage" where
  "make_message now tp pl mi =
     \<lparr>topic = tp, payload = pl,
      timestamp = (case info_timestamp mi of None \<Rightarrow> now | Some t \<Rightarrow> t),
      qos = (case info_qos mi of None \<Rightarrow> 0 | Some q \<Rightarrow> q),
      retain = (case info_retain mi of None \<Rightarrow> False | Some r \<Rightarrow> r),
      mid = info_mid mi\<rparr>"

text \<open>
  \<open>add_message\<close>; \<open>now\<close> is the value of \<open>time.time()\<close> at the call. The result is the
  returned boolean, or the exception that leaves the method, with the state.
\<close>

definition add_message ::
  "real \<Rightarrow> string \<Rightarrow> string \<Rightarrow> msg_info \<Rightarrow> MessageQueueManager
     \<Rightarrow> (exn + bool) \<times> MessageQueueManager" where
  "add_message now tp pl mi st =
     (let message = make_message now tp pl mi in
      case put_nowait message st of
        Inr st1 \<Rightarrow> (Inr True, st1)
      | Inl _ \<Rightarrow>
          (case call_hook (on_queue_full st) (qsize st) QueueFullCall st of
             (Raises, st1) \<Rightarrow>
               (case report_error ''Error adding message to queue'' st1 of
                  (None, st2) \<Rightarrow> (Inr False, st2)
                | (Some e, st2) \<Rightarrow> (Inl e, st2))
           | (Returns, st1) \<Rightarrow>
               (case get_nowait st1 of
                  Inl _ \<Rightarrow> (Inr False, st1)
                | Inr (_, st2) \<Rightarrow>
                    (case put_nowait message st2 of
                       Inl _ \<Rightarrow> (Inr False, st2)
                     | Inr st3 \<Rightarrow> (Inr True, st3)))))"

text \<open>The \<open>while\<close> loop of \<open>_update_message_rate\<close> that pops old samples from the left.\<close>

fun evict_old :: "real \<Rightarrow> real list \<Rightarrow> real list" where
  "evict_old cutoff_time [] = []"
| "evict_old cutoff_time (t # ts) =
     (if t < cutoff_time then evict_old cutoff_time ts else t # ts)"

text \<open>\<open>_update_message_rate\<close>; \<open>now\<close> is the \<open>time.time()\<close> it reads.\<close>

definition update_message_rate :: "real \<Rightarrow> MessageQueueManager \<Rightarrow> MessageQueueManager" where
  "update_message_rate now st =
     (let cutoff_time = now - real (rate_calculation_window st);
          rh = evict_old cutoff_time (rate_history st);
          st1 = st\<lparr>rate_history := rh\<rparr>
      in if 1 < length rh
         then (let time_span = now - hd rh
               in if 0 < time_span
                  then st1\<lparr>messages_per_second := real (length rh) / time_span\<rparr>
                  else st1\<lparr>messages_per_second := 0\<rparr>)
         else st1\<lparr>messages_per_second := 0\<rparr>)"

text \<open>\<open>topic_stats[t] += 1\<close>, with a new key entered as 0 first (insertion order kept).\<close>

fun bump :: "string \<Rightarrow> (string \<times> nat) list \<Rightarrow> (string \<times> nat) list" where
  "bump t [] = [(t, 1)]"
| "bump t ((k, v) # kvs) = (if k = t then (k, v + 1) # kvs else (k, v) # bump t kvs)"

text \<open>
  \<open>_handle_message\<close>, first the block under \<open>with self.queue_lock\<close>. \<open>now\<close> is the
  clock read by \<open>_update_message_rate\<close>.
\<close>

definition update_under_lock ::
  "real \<Rightarrow> MQTTMessage \<Rightarrow> MessageQueueManager \<Rightarrow> MessageQueueManager" where
  "update_under_lock now message st =
     (let st1 = st\<lparr>total_messages := total_messages st + 1,
                   last_message_time := Some (timestamp message)\<rparr>;
          st2 = st1\<lparr>topic_stats := bump (topic message) (topic_stats st1)\<rparr>;
          st3 = st2\<lparr>rate_history :=
                  deque_append (rate_calculation_window st2) (rate_history st2) (timestamp message)\<rparr>;
          st4 = update_message_rate now st3
      in st4\<lparr>message_history :=
               deque_append (max_history st4) (message_history st4) message\<rparr>)"

text \<open>
  Then, outside the lock, the observer; an exception of the observer is handled by
  \<open>except Exception\<close>, which reports it to \<open>on_error\<close>.
\<close>

definition handle_message ::
  "real \<Rightarrow> MQTTMessage \<Rightarrow> MessageQueueManager \<Rightarrow> (exn + unit) \<times> MessageQueueManager" where
  "handle_message now message st =
     (let st5 = update_under_lock now message st
      in case call_hook (on_message_processed st5) message ProcessedCall st5 of
           (Returns, st6) \<Rightarrow> (Inr (), st6)
         | (Raises, st6) \<Rightarrow>
             (case report_error ''Error handling message'' st6 of
                (None, st7) \<Rightarrow> (Inr (), st7)
              | (Some e, st7) \<Rightarrow> (Inl e, st7)))"

text \<open>
  A run of \<open>_handle_message\<close> over messages in arrival order, each paired with the
  clock at which it is handled.
\<close>

fun handle_all :: "(real \<times> MQTTMessage) list \<Rightarrow> MessageQueueManager \<Rightarrow> MessageQueueManager" where
  "handle_all [] st = st"
| "handle_all ((now, m) # rest) st = handle_all rest (snd (handle_message now m st))"

text \<open>
  The slice \<open>xs[start:]\<close> of Python: a negative \<open>start\<close> counts from the end, and the
  bound is clamped to the list.
\<close>

definition slice_from :: "'a list \<Rightarrow> int \<Rightarrow> 'a list" where
  "slice_from xs start =
     (let n = int (length xs);
          s = (if start < 0 then max (start + n) 0 else min start n)
      in drop (nat s) xs)"

text \<open>\<open>get_recent_messages(count)\<close>: \<open>list(history)\<close> or \<open>list(history)[-count:]\<close>.\<close>

definition get_recent_messages :: "int option \<Rightarrow> MessageQueueManager \<Rightarrow> MQTTMessage list" where
  "get_recent_messages cnt st =
     (case cnt of
        None \<Rightarrow> message_history st
      | Some c \<Rightarrow> slice_from (message_history st) (- c))"

definition clear_history :: "MessageQueueManager \<Rightarrow> MessageQueueManager" where
  "clear_history st = st\<lparr>message_history := []\<rparr>"

definition clear_statistics :: "MessageQueueManager \<Rightarrow> MessageQueueManager" where
  "clear_statistics st =
     st\<lparr>total_messages := 0, messages_per_second := 0, last_message_time := None,
        topic_stats := [], rate_history := []\<rparr>"

text \<open>
  One iteration of the worker loop \<open>_process_messages\<close>: an empty queue is skipped,
  otherwise the oldest queued message is handled.
\<close>

definition process_one :: "real \<Rightarrow> MessageQueueManager \<Rightarrow> MessageQueueManager" where
  "process_one now st =
     (case get_nowait st of
        Inl _ \<Rightarrow> st
      | Inr (m, st1) \<Rightarrow>
          (case handle_message now m st1 of
             (Inr _, st2) \<Rightarrow> st2
           | (Inl _, st2) \<Rightarrow> snd (report_error ''Error in message processing loop'' st2)))"

text \<open>The operations that change a manager, and a run of them.\<close>

datatype mq_op =
    AddMessage real string string msg_info
  | ProcessOne real
  | HandleMessage real MQTTMessage
  | ClearHistory
  | ClearStatistics

fun mq_step :: "mq_op \<Rightarrow> MessageQueueManager \<Rightarrow> MessageQueueManager" where
  "mq_step (AddMessage now tp pl mi) st = snd (add_message now tp pl mi st)"
| "mq_step (ProcessOne now) st = process_one now st"
| "mq_step (HandleMessage now m) st = snd (handle_message now m st)"
| "mq_step ClearHistory st = clear_history st"
| "mq_step ClearStatistics st = clear_statistics st"

fun mq_run :: "mq_op list \<Rightarrow> MessageQueueManager \<Rightarrow> MessageQueueManager" where
  "mq_run [] st = st"
| "mq_run (op # ops) st = mq_run ops (mq_step op st)"

section \<open>Topic validation (src/app.py)\<close>

text \<open>
  Topics are strings of 8-bit characters. \<open>str.isspace\<close> on them: the characters
  9 to 13, 28 to 32, 133 and 160.
\<close>

definition isspace :: "char \<Rightarrow> bool" where
  "isspace c = (let n = (of_char c :: nat)
                in (9 \<le> n \<and> n \<le> 13) \<or> (28 \<le> n \<and> n \<le> 32) \<or> n = 133 \<or> n = 160)"

text \<open>\<open>s.strip()\<close>: whitespace removed at both ends.\<close>

definition strip :: "string \<Rightarrow> string" where
  "strip s = rev (dropWhile isspace (rev (dropWhile isspace s)))"

text \<open>\<open>s.split(sep)\<close> for a separator of one character; the result is never empty.\<close>

fun split_on :: "char \<Rightarrow> string \<Rightarrow> string list" where
  "split_on sep [] = [[]]"
| "split_on sep (c # cs) =
     (if c = sep then [] # split_on sep cs
      else (case split_on sep cs of [] \<Rightarrow> [[c]] | p # ps \<Rightarrow> (c # p) # ps))"

text \<open>\<open>s.endswith(suffix)\<close>.\<close>

definition endswith :: "string \<Rightarrow> string \<Rightarrow> bool" where
  "endswith s suffix = (length suffix \<le> length s \<and> drop (length s - length suffix) s = suffix)"

text \<open>The list \<open>invalid_chars\<close> (NUL, tab, LF, CR) and the loop over it.\<close>

definition invalid_chars :: "char list" where
  "invalid_chars = [CHR 0x00, CHR 0x09, CHR 0x0A, CHR 0x0D]"

fun no_invalid_char :: "char list \<Rightarrow> string \<Rightarrow> bool" where
  "no_invalid_char [] t = True"
| "no_invalid_char (c # cs) t = (if c \<in> set t then False else no_invalid_char cs t)"

text \<open>The loop over the parts; \<open>False\<close> is its early \<open>return False\<close>.\<close>

fun wildcards_standalone :: "string list \<Rightarrow> bool" where
  "wildcards_standalone [] = True"
| "wildcards_standalone (part # parts) =
     (if CHR ''+'' \<in> set part \<and> part \<noteq> ''+'' then False
      else if CHR ''#'' \<in> set part \<and> part \<noteq> ''#'' then False
      else wildcards_standalone parts)"

text \<open>\<open>validate_topic\<close>, check by check in the order of the source.\<close>

definition validate_topic :: "string \<Rightarrow> bool" where
  "validate_topic t =
     (if t = [] \<or> strip t = [] then False
      else if \<not> no_invalid_char invalid_chars t then False
      else if \<not> wildcards_standalone (split_on CHR ''/'' t) then False
      else if CHR ''#'' \<in> set t \<and> \<not> endswith t ''#'' then False
      else True)"

text \<open>
  The validity of a topic filter in the words of the specification: non-empty, none of
  NUL, tab, CR, LF, every segment that contains \<open>+\<close> or \<open>#\<close> is that single character,
  and \<open>#\<close> appears only in the final segment.
\<close>

definition spec_valid_topic :: "string \<Rightarrow> bool" where
  "spec_valid_topic t =
     (t \<noteq> [] \<and>
      (\<forall>c \<in> set invalid_chars. c \<notin> set t) \<and>
      (\<forall>seg \<in> set (split_on CHR ''/'' t).
          (CHR ''+'' \<in> set seg \<longrightarrow> seg = ''+'') \<and> (CHR ''#'' \<in> set seg \<longrightarrow> seg = ''#'')) \<and>
      (\<forall>seg \<in> set (butlast (split_on CHR ''/'' t)). CHR ''#'' \<notin> set seg))"

section \<open>MQTT client wrapper (src/src/mqtt_client.py)\<close>

datatype ConnectionStatus =
  DISCONNECTED | CONNECTING | CONNECTED | CONNECTION_FAILED | CONNECTION_LOST

text \<open>
  What a call into the protocol client library does: it returns a result code
  (\<open>MQTT_ERR_SUCCESS\<close> is 0) or it raises.
\<close>

datatype lib_result = Rc int | LibRaises

text \<open>
  The wrapper. \<open>reconnect_timer\<close> is the stored \<open>threading.Timer\<close>, by its delay.
  \<open>subscribed_topics\<close> is the dict topic -> qos in insertion order. The observers
  \<open>on_status_change\<close>, \<open>on_error\<close> (here \<open>on_client_error\<close>, the name \<open>on_error\<close> being
  the message queue manager's) and \<open>on_connected\<close> are user code that returns or raises;
  \<open>status_notifications\<close>, \<open>error_notifications\<close> and \<open>connected_notifications\<close> record
  the calls made to them (oldest first). Of an error message only the fixed prefix is
  kept, in \<open>last_error\<close> and in the calls of \<open>on_error\<close>. \<open>loop_running\<close> and
  \<open>processing\<close> stand for the library's network loop and the message queue worker
  having been started and not stopped since.
\<close>

record MQTTClientWrapper =
  status :: ConnectionStatus
  host :: "string option"
  port :: "int option"
  username :: "string option"
  password :: "string option"
  on_status_change :: "(ConnectionStatus \<Rightarrow> hook_result) option"
  on_client_error :: "(string \<Rightarrow> hook_result) option"
  on_connected :: "(unit \<Rightarrow> hook_result) option"
  connection_attempts :: nat
  last_error :: "string option"
  auto_reconnect :: bool
  reconnect_timer :: "real option"
  reconnect_attempts :: nat
  subscribed_topics :: "(string \<times> int) list"
  pending_subscriptions :: "string list"
  status_notifications :: "ConnectionStatus list"
  error_notifications :: "string list"
  connected_notifications :: nat
  loop_running :: bool
  processing :: bool

definition new_wrapper :: MQTTClientWrapper where
  "new_wrapper =
     \<lparr>status = DISCONNECTED, host = None, port = None, username = None, password = None,
      on_status_change = None, on_client_error = None, on_connected = None,
      connection_attempts = 0, last_error = None, auto_reconnect = True,
      reconnect_timer = None, reconnect_attempts = 0, subscribed_topics = [],
      pending_subscriptions = [], status_notifications = [], error_notifications = [],
      connected_notifications = 0, loop_running = False, processing = False\<rparr>"

definition reconnect_delay_base :: real where
  "reconnect_delay_base = 1"

definition reconnect_delay_max :: real where
  "reconnect_delay_max = 60"

text \<open>What an observer call does to the caller: nothing, or its exception.\<close>

definition raised :: "hook_result \<Rightarrow> exn + unit" where
  "raised r = (case r of Returns \<Rightarrow> Inr () | Raises \<Rightarrow> Inl HookFailure)"

text \<open>
  \<open>_set_status\<close>: the status is assigned first, then the observer is called, with no
  guard around the call: an exception of the observer leaves \<open>_set_status\<close>.
\<close>

definition set_status ::
  "ConnectionStatus \<Rightarrow> MQTTClientWrapper \<Rightarrow> (exn + unit) \<times> MQTTClientWrapper" where
  "set_status new_status st =
     (if status st \<noteq> new_status
      then (let st1 = st\<lparr>status := new_status\<rparr> in
            case on_status_change st1 of
              None \<Rightarrow> (Inr (), st1)
            | Some f \<Rightarrow>
                (raised (f new_status),
                 st1\<lparr>status_notifications := status_notifications st1 @ [new_status]\<rparr>))
      else (Inr (), st))"

text \<open>\<open>if self.on_error: self.on_error(error_msg)\<close>.\<close>

definition report_client_error ::
  "string \<Rightarrow> MQTTClientWrapper \<Rightarrow> (exn + unit) \<times> MQTTClientWrapper" where
  "report_client_error msg st =
     (case on_client_error st of
        None \<Rightarrow> (Inr (), st)
      | Some f \<Rightarrow> (raised (f msg), st\<lparr>error_notifications := error_notifications st @ [msg]\<rparr>))"

definition cancel_reconnect_timer :: "MQTTClientWrapper \<Rightarrow> MQTTClientWrapper" where
  "cancel_reconnect_timer st =
     (case reconnect_timer st of None \<Rightarrow> st | Some _ \<Rightarrow> st\<lparr>reconnect_timer := None\<rparr>)"

text \<open>
  \<open>reconnect_delay_base * (2 ** reconnect_attempts)\<close> multiplies a float by a Python
  int, which converts the int to a float first: exactly for \<open>2 ** n\<close> with \<open>n < 1024\<close>,
  and with \<open>OverflowError\<close> (int too large to convert to float) from \<open>2 ** 1024\<close> on.
  The product with the base 1.0 and the \<open>min\<close> with 60.0 are exact.
\<close>

definition float_of_pow2 :: "nat \<Rightarrow> exn + real" where
  "float_of_pow2 n = (if n < 1024 then Inr (2 ^ n) else Inl OverflowError)"

definition backoff_delay :: "nat \<Rightarrow> exn + real" where
  "backoff_delay n =
     (case float_of_pow2 n of
        Inl e \<Rightarrow> Inl e
      | Inr p \<Rightarrow> Inr (min (reconnect_delay_base * p) reconnect_delay_max))"

text \<open>\<open>not self.host\<close>: the host is \<open>None\<close> or the empty string.\<close>

definition no_host :: "MQTTClientWrapper \<Rightarrow> bool" where
  "no_host st = (case host st of None \<Rightarrow> True | Some h \<Rightarrow> h = [])"

text \<open>
  \<open>_schedule_reconnect\<close>. The exception of the delay computation leaves the method after
  the old timer was cancelled and before the counter is incremented.
\<close>

definition schedule_reconnect :: "MQTTClientWrapper \<Rightarrow> (exn + unit) \<times> MQTTClientWrapper" where
  "schedule_reconnect st =
     (if \<not> auto_reconnect st \<or> no_host st then (Inr (), st)
      else (let st1 = cancel_reconnect_timer st in
            case backoff_delay (reconnect_attempts st1) of
              Inl e \<Rightarrow> (Inl e, st1)
            | Inr delay \<Rightarrow>
                (Inr (), st1\<lparr>reconnect_attempts := reconnect_attempts st1 + 1,
                              reconnect_timer := Some delay\<rparr>)))"

text \<open>
  The \<open>except Exception\<close> handler of \<open>connect\<close>: it records the error and calls
  \<open>_set_status(CONNECTION_FAILED)\<close>; an exception of the status observer there leaves
  \<open>connect\<close>.
\<close>

definition connect_handler :: "MQTTClientWrapper \<Rightarrow> (exn + bool) \<times> MQTTClientWrapper" where
  "connect_handler st =
     (case set_status CONNECTION_FAILED (st\<lparr>last_error := Some ''Connection error''\<rparr>) of
        (Inr _, st1) \<Rightarrow> (Inr False, st1)
      | (Inl e, st1) \<Rightarrow> (Inl e, st1))"

text \<open>
  \<open>connect\<close>; \<open>lib\<close> is what \<open>self.client.connect(host, port, keepalive)\<close> does.
  Every exception inside the \<open>try\<close> block, of the library or of the status observer,
  goes to the handler. The credentials handed to the library by \<open>username_pw_set\<close> are
  state of the library and are not modelled.
\<close>

definition connect ::
  "string \<Rightarrow> int \<Rightarrow> string option \<Rightarrow> string option \<Rightarrow> lib_result \<Rightarrow> MQTTClientWrapper
     \<Rightarrow> (exn + bool) \<times> MQTTClientWrapper" where
  "connect h p usr pwd lib st =
     (if status st = CONNECTED \<or> status st = CONNECTING then (Inr False, st)
      else (let st1 = st\<lparr>host := Some h, port := Some p, username := usr, password := pwd\<rparr> in
            case set_status CONNECTING st1 of
              (Inl _, st2) \<Rightarrow> connect_handler st2
            | (Inr _, st2) \<Rightarrow>
                (let st3 = st2\<lparr>connection_attempts := connection_attempts st2 + 1\<rparr> in
                 case lib of
                   Rc result \<Rightarrow>
                     (if result = 0
                      then (Inr True, st3\<lparr>loop_running := True, processing := True\<rparr>)
                      else (case set_status CONNECTION_FAILED
                                   (st3\<lparr>last_error := Some ''Connection failed''\<rparr>) of
                              (Inr _, st4) \<Rightarrow> (Inr False, st4)
                            | (Inl _, st4) \<Rightarrow> connect_handler st4))
                 | LibRaises \<Rightarrow> connect_handler st3)))"

text \<open>
  \<open>_attempt_reconnect\<close>, the body of the reconnect timer. It calls \<open>connect\<close> with the
  stored host and port; \<open>connect\<close> stores the two together, so a stored host comes with
  a stored port (the default 1883 stands for the port where none is stored). An
  exception that leaves \<open>connect\<close> leaves \<open>_attempt_reconnect\<close> too.
\<close>

definition attempt_reconnect :: "lib_result \<Rightarrow> MQTTClientWrapper \<Rightarrow> (exn + unit) \<times> MQTTClientWrapper" where
  "attempt_reconnect lib st =
     (if status st = CONNECTED then (Inr (), st)
      else (case host st of
              None \<Rightarrow> (Inr (), st)
            | Some h \<Rightarrow>
                (if h = [] then (Inr (), st)
                 else (case connect h (case port st of None \<Rightarrow> 1883 | Some p \<Rightarrow> p)
                              (username st) (password st) lib st of
                         (Inl e, st1) \<Rightarrow> (Inl e, st1)
                       | (Inr success, st1) \<Rightarrow>
                           (if \<not> success then schedule_reconnect st1 else (Inr (), st1))))))"

text \<open>
  The \<open>except Exception\<close> handler of \<open>disconnect\<close>: it reports to \<open>on_error\<close>, whose
  exception leaves \<open>disconnect\<close>.
\<close>

definition disconnect_handler :: "MQTTClientWrapper \<Rightarrow> (exn + bool) \<times> MQTTClientWrapper" where
  "disconnect_handler st =
     (case report_client_error ''Disconnect error'' st of
        (Inr _, st1) \<Rightarrow> (Inr False, st1)
      | (Inl e, st1) \<Rightarrow> (Inl e, st1))"

text \<open>\<open>disconnect\<close>; \<open>lib\<close> is what \<open>self.client.disconnect()\<close> does.\<close>

definition disconnect :: "lib_result \<Rightarrow> MQTTClientWrapper \<Rightarrow> (exn + bool) \<times> MQTTClientWrapper" where
  "disconnect lib st =
     (let st1 = cancel_reconnect_timer st in
      if status st1 = CONNECTED \<or> status st1 = CONNECTING
      then (let st2 = st1\<lparr>processing := False, loop_running := False\<rparr> in
            case lib of
              Rc result \<Rightarrow>
                (if result = 0
                 then (case set_status DISCONNECTED st2 of
                         (Inr _, st3) \<Rightarrow> (Inr True, st3)
                       | (Inl _, st3) \<Rightarrow> disconnect_handler st3)
                 else (Inr False, st2))
            | LibRaises \<Rightarrow> disconnect_handler st2)
      else (case set_status DISCONNECTED (st1\<lparr>processing := False\<rparr>) of
              (Inr _, st3) \<Rightarrow> (Inr True, st3)
            | (Inl _, st3) \<Rightarrow> disconnect_handler st3))"

definition is_connected :: "MQTTClientWrapper \<Rightarrow> bool" where
  "is_connected st = (status st = CONNECTED)"

text \<open>\<open>queue_subscription\<close>; the \<open>qos\<close> argument is not used by the source.\<close>

definition queue_subscription :: "string \<Rightarrow> int \<Rightarrow> MQTTClientWrapper \<Rightarrow> bool \<times> MQTTClientWrapper" where
  "queue_subscription tp q st =
     (if tp \<notin> set (pending_subscriptions st)
      then (True, st\<lparr>pending_subscriptions := pending_subscriptions st @ [tp]\<rparr>)
      else (False, st))"

text \<open>\<open>d[k] = v\<close> and \<open>d.pop(k, None)\<close> on a dict kept in insertion order.\<close>

fun dict_set :: "'k \<Rightarrow> 'v \<Rightarrow> ('k \<times> 'v) list \<Rightarrow> ('k \<times> 'v) list" where
  "dict_set k v [] = [(k, v)]"
| "dict_set k v ((k', v') # kvs) = (if k' = k then (k, v) # kvs else (k', v') # dict_set k v kvs)"

fun dict_pop :: "'k \<Rightarrow> ('k \<times> 'v) list \<Rightarrow> ('k \<times> 'v) list" where
  "dict_pop k [] = []"
| "dict_pop k ((k', v') # kvs) = (if k' = k then kvs else (k', v') # dict_pop k kvs)"

definition dict_keys :: "('k \<times> 'v) list \<Rightarrow> 'k list" where
  "dict_keys kvs = map fst kvs"

text \<open>
  The \<open>except Exception\<close> handler shared in shape by \<open>subscribe_to_topic\<close> and
  \<open>unsubscribe_from_topic\<close>: it reports to \<open>on_error\<close>, whose exception leaves the
  method.
\<close>

definition registry_handler ::
  "string \<Rightarrow> MQTTClientWrapper \<Rightarrow> (exn + bool) \<times> MQTTClientWrapper" where
  "registry_handler msg st =
     (case report_client_error msg st of
        (Inr _, st1) \<Rightarrow> (Inr False, st1)
      | (Inl e, st1) \<Rightarrow> (Inl e, st1))"

text \<open>
  \<open>subscribe_to_topic\<close>; \<open>lib\<close> is what \<open>self.client.subscribe(topic, qos)\<close> does. The
  call of \<open>on_error\<close> on a refused request is inside the \<open>try\<close> block, so its exception
  goes to the handler, which calls \<open>on_error\<close> again.
\<close>

definition subscribe_to_topic ::
  "string \<Rightarrow> int \<Rightarrow> lib_result \<Rightarrow> MQTTClientWrapper \<Rightarrow> (exn + bool) \<times> MQTTClientWrapper" where
  "subscribe_to_topic tp q lib st =
     (if \<not> is_connected st
      then (case queue_subscription tp q st of (queued, st1) \<Rightarrow> (Inr queued, st1))
      else (case lib of
              Rc result \<Rightarrow>
                (if result = 0
                 then (Inr True, st\<lparr>subscribed_topics := dict_set tp q (subscribed_topics st)\<rparr>)
                 else (case report_client_error ''Failed to subscribe'' st of
                         (Inr _, st1) \<Rightarrow> (Inr False, st1)
                       | (Inl _, st1) \<Rightarrow> registry_handler ''Subscription error'' st1))
            | LibRaises \<Rightarrow> registry_handler ''Subscription error'' st))"

text \<open>
  \<open>unsubscribe_from_topic\<close>; \<open>lib\<close> is what \<open>self.client.unsubscribe(topic)\<close> does.
\<close>

definition unsubscribe_from_topic ::
  "string \<Rightarrow> lib_result \<Rightarrow> MQTTClientWrapper \<Rightarrow> (exn + bool) \<times> MQTTClientWrapper" where
  "unsubscribe_from_topic tp lib st =
     (if \<not> is_connected st then (Inr False, st)
      else (case lib of
              Rc result \<Rightarrow>
                (if result = 0
                 then (Inr True, st\<lparr>subscribed_topics := dict_pop tp (subscribed_topics st)\<rparr>)
                 else (case report_client_error ''Failed to unsubscribe'' st of
                         (Inr _, st1) \<Rightarrow> (Inr False, st1)
                       | (Inl _, st1) \<Rightarrow> registry_handler ''Unsubscription error'' st1))
            | LibRaises \<Rightarrow> registry_handler ''Unsubscription error'' st))"

definition get_subscribed_topics :: "MQTTClientWrapper \<Rightarrow> (string \<times> int) list" where
  "get_subscribed_topics st = subscribed_topics st"

text \<open>
  The loop of \<open>_on_connect\<close> over a copy of the pending list: each topic is subscribed
  with the default \<open>qos\<close> 0 and, when that reports success, removed from the pending list
  (\<open>list.remove\<close> removes the first occurrence). \<open>sr\<close> gives what the library does on
  the subscribe request for each topic. An exception that leaves \<open>subscribe_to_topic\<close>
  leaves the loop and \<open>_on_connect\<close>.
\<close>

fun flush_pending ::
  "(string \<Rightarrow> lib_result) \<Rightarrow> string list \<Rightarrow> MQTTClientWrapper
     \<Rightarrow> (exn + unit) \<times> MQTTClientWrapper" where
  "flush_pending sr [] st = (Inr (), st)"
| "flush_pending sr (tp # tps) st =
     (case subscribe_to_topic tp 0 (sr tp) st of
        (Inl e, st1) \<Rightarrow> (Inl e, st1)
      | (Inr ok, st1) \<Rightarrow>
          flush_pending sr tps
            (if ok then st1\<lparr>pending_subscriptions := remove1 tp (pending_subscriptions st1)\<rparr>
             else st1))"

text \<open>\<open>if self.on_connected: self.on_connected()\<close>.\<close>

definition notify_connected :: "MQTTClientWrapper \<Rightarrow> (exn + unit) \<times> MQTTClientWrapper" where
  "notify_connected st =
     (case on_connected st of
        None \<Rightarrow> (Inr (), st)
      | Some f \<Rightarrow> (raised (f ()), st\<lparr>connected_notifications := connected_notifications st + 1\<rparr>))"

text \<open>
  \<open>_on_connect\<close>, the library's callback on the broker's connect acknowledgment. It has
  no \<open>try\<close>: an exception of an observer leaves it where it is raised.
\<close>

definition on_connect ::
  "int \<Rightarrow> (string \<Rightarrow> lib_result) \<Rightarrow> MQTTClientWrapper \<Rightarrow> (exn + unit) \<times> MQTTClientWrapper" where
  "on_connect rc sr st =
     (if rc = 0
      then (case set_status CONNECTED st of
              (Inl e, st1) \<Rightarrow> (Inl e, st1)
            | (Inr _, st1) \<Rightarrow>
                (let st2 = st1\<lparr>connection_attempts := 0, reconnect_attempts := 0,
                               last_error := None\<rparr>;
                     st3 = cancel_reconnect_timer st2
                 in case flush_pending sr (pending_subscriptions st3) st3 of
                      (Inl e, st4) \<Rightarrow> (Inl e, st4)
                    | (Inr _, st4) \<Rightarrow> notify_connected st4))
      else (case set_status CONNECTION_FAILED
                   (st\<lparr>last_error := Some ''Connection failed with code''\<rparr>) of
              (Inl e, st1) \<Rightarrow> (Inl e, st1)
            | (Inr _, st1) \<Rightarrow> schedule_reconnect st1))"

text \<open>\<open>_on_disconnect\<close> and \<open>_on_connect_fail\<close>, the library's other callbacks.\<close>

definition on_disconnect :: "int \<Rightarrow> MQTTClientWrapper \<Rightarrow> (exn + unit) \<times> MQTTClientWrapper" where
  "on_disconnect rc st =
     (if rc \<noteq> 0
      then (case set_status CONNECTION_LOST st of
              (Inl e, st1) \<Rightarrow> (Inl e, st1)
            | (Inr _, st1) \<Rightarrow> schedule_reconnect st1)
      else (case set_status DISCONNECTED st of
              (Inl e, st1) \<Rightarrow> (Inl e, st1)
            | (Inr _, st1) \<Rightarrow> (Inr (), cancel_reconnect_timer st1)))"

definition on_connect_fail :: "MQTTClientWrapper \<Rightarrow> (exn + unit) \<times> MQTTClientWrapper" where
  "on_connect_fail st =
     (case set_status CONNECTION_FAILED
             (st\<lparr>last_error := Some ''Failed to establish connection to MQTT broker''\<rparr>) of
        (Inl e, st1) \<Rightarrow> (Inl e, st1)
      | (Inr _, st1) \<Rightarrow> schedule_reconnect st1)"

definition set_auto_reconnect :: "bool \<Rightarrow> MQTTClientWrapper \<Rightarrow> MQTTClientWrapper" where
  "set_auto_reconnect enabled st =
     (let st1 = st\<lparr>auto_reconnect := enabled\<rparr>
      in if \<not> enabled then cancel_reconnect_timer st1 else st1)"

text \<open>
  The events a wrapper meets: the calls of its public methods, the callbacks of the
  library and the firing of the reconnect timer. A run applies them in order; the state
  is kept as it is where an exception leaves a method.
\<close>

datatype event =
    Connect string int "string option" "string option" lib_result
  | Disconnect lib_result
  | Subscribe string int lib_result
  | Unsubscribe string lib_result
  | OnConnect int "string \<Rightarrow> lib_result"
  | OnDisconnect int
  | OnConnectFail
  | TimerFires lib_result
  | SetAutoReconnect bool

fun step :: "event \<Rightarrow> MQTTClientWrapper \<Rightarrow> MQTTClientWrapper" where
  "step (Connect h p usr pwd lib) st = snd (connect h p usr pwd lib st)"
| "step (Disconnect lib) st = snd (disconnect lib st)"
| "step (Subscribe tp q lib) st = snd (subscribe_to_topic tp q lib st)"
| "step (Unsubscribe tp lib) st = snd (unsubscribe_from_topic tp lib st)"
| "step (OnConnect rc sr) st = snd (on_connect rc sr st)"
| "step (OnDisconnect rc) st = snd (on_disconnect rc st)"
| "step OnConnectFail st = snd (on_connect_fail st)"
| "step (TimerFires lib) st = snd (attempt_reconnect lib st)"
| "step (SetAutoReconnect enabled) st = set_auto_reconnect enabled st"

fun run :: "event list \<Rightarrow> MQTTClientWrapper \<Rightarrow> MQTTClientWrapper" where
  "run [] st = st"
| "run (e # es) st = run es (step e st)"

text \<open>
  Whether the status observer raises when told \<open>s\<close>, and whether the error observer
  raises when told \<open>msg\<close>; an observer that is not registered does not.
\<close>

definition status_observer_raises :: "ConnectionStatus \<Rightarrow> MQTTClientWrapper \<Rightarrow> bool" where
  "status_observer_raises s st =
     (case on_status_change st of None \<Rightarrow> False | Some f \<Rightarrow> f s = Raises)"

definition error_observer_raises :: "string \<Rightarrow> MQTTClientWrapper \<Rightarrow> bool" where
  "error_observer_raises msg st =
     (case on_client_error st of None \<Rightarrow> False | Some f \<Rightarrow> f msg = Raises)"

text \<open>
  Whether an exception leaves \<open>subscribe_to_topic\<close> on a connected wrapper whose
  library answers \<open>lib\<close>: on a refusal when the error observer raises on both of its
  calls, on an exception of the library when it raises on the handler's call.
\<close>

definition subscribe_raises :: "lib_result \<Rightarrow> MQTTClientWrapper \<Rightarrow> bool" where
  "subscribe_raises lib st =
     (case lib of
        Rc result \<Rightarrow>
          result \<noteq> 0 \<and> error_observer_raises ''Failed to subscribe'' st
            \<and> error_observer_raises ''Subscription error'' st
      | LibRaises \<Rightarrow> error_observer_raises ''Subscription error'' st)"

text \<open>
  The pending list and the active map hold no topic in common.
\<close>

definition registry_disjoint :: "MQTTClientWrapper \<Rightarrow> bool" where
  "registry_disjoint st =
     (set (pending_subscriptions st) \<inter> set (dict_keys (subscribed_topics st)) = {})"

text \<open>
  An event is a fresh subscribe when it is no subscribe, or a subscribe of a topic that
  the other collection does not hold: not active when the wrapper is not connected (the
  topic goes to the pending list), not pending when it is connected (the topic goes to
  the active map). \<open>run_fresh\<close> says so of every event of a run.
\<close>

fun subscribes_fresh :: "event \<Rightarrow> MQTTClientWrapper \<Rightarrow> bool" where
  "subscribes_fresh (Subscribe tp q lib) st =
     (if is_connected st then tp \<notin> set (pending_subscriptions st)
      else tp \<notin> set (dict_keys (subscribed_topics st)))"
| "subscribes_fresh _ st = True"

fun run_fresh :: "event list \<Rightarrow> MQTTClientWrapper \<Rightarrow> bool" where
  "run_fresh [] st = True"
| "run_fresh (e # es) st = (subscribes_fresh e st \<and> run_fresh es (step e st))"

subsection \<open>Concrete inputs\<close>

definition mk_msg :: "string \<Rightarrow> real \<Rightarrow> MQTTMessage" where
  "mk_msg tp ts = \<lparr>topic = tp, payload = ''x'', timestamp = ts, qos = 0, retain = False, mid = None\<rparr>"

definition three_messages :: "(real \<times> MQTTMessage) list" where
  "three_messages = [(0, mk_msg ''a'' 0), (1, mk_msg ''b'' 1), (2, mk_msg ''c'' 2)]"

definition no_info :: msg_info where
  "no_info = \<lparr>info_timestamp = None, info_qos = None, info_retain = None, info_mid = None\<rparr>"

text \<open>Full queues: one whose observers raise, one whose observer returns, one whose
  overflow observer raises with no error observer registered.\<close>

definition full_with_raising_hooks :: MessageQueueManager where
  "full_with_raising_hooks =
     (new_manager 1 1000)\<lparr>incoming_queue := [mk_msg ''a'' 0],
        on_queue_full := Some (\<lambda>_. Raises), on_error := Some (\<lambda>_. Raises)\<rparr>"

definition full_with_quiet_hook :: MessageQueueManager where
  "full_with_quiet_hook =
     (new_manager 2 1000)\<lparr>incoming_queue := [mk_msg ''a'' 0, mk_msg ''b'' 1],
        on_queue_full := Some (\<lambda>_. Returns)\<rparr>"

definition full_with_raising_observer :: MessageQueueManager where
  "full_with_raising_observer =
     (new_manager 1 1000)\<lparr>incoming_queue := [mk_msg ''a'' 0],
        on_queue_full := Some (\<lambda>_. Raises)\<rparr>"

text \<open>
  \<open>k\<close> messages stamped \<open>delta\<close> seconds apart from \<open>t0\<close>, each handled at the
  instant of its timestamp; and three messages stamped at 0, 1 and 2 seconds, each
  handled half a second after its timestamp.
\<close>

definition evenly_spaced :: "real \<Rightarrow> real \<Rightarrow> nat \<Rightarrow> (real \<times> MQTTMessage) list" where
  "evenly_spaced t0 delta k =
     map (\<lambda>i. (t0 + real i * delta, mk_msg ''t'' (t0 + real i * delta))) [0..<k]"

definition lagged_messages :: "(real \<times> MQTTMessage) list" where
  "lagged_messages = [(1/2, mk_msg ''a'' 0), (3/2, mk_msg ''b'' 1), (5/2, mk_msg ''c'' 2)]"

text \<open>
  A session that is connected, acknowledged and then lost, followed by \<open>n\<close> firings of
  the reconnect timer whose connect attempt fails; a connected wrapper; a session in
  which a topic subscribed while connected is subscribed again after the connection was
  lost; and a session that subscribes before connecting.
\<close>

definition outage :: "nat \<Rightarrow> event list" where
  "outage n =
     [Connect ''broker'' 1883 None None (Rc 0), OnConnect 0 (\<lambda>_. Rc 0), OnDisconnect 1]
       @ replicate n (TimerFires LibRaises)"


definition resubscribe_after_loss :: "event list" where
  "resubscribe_after_loss =
     [Connect ''broker'' 1883 None None (Rc 0), OnConnect 0 (\<lambda>_. Rc 0),
      Subscribe ''a'' 1 (Rc 0), OnDisconnect 1, Subscribe ''a'' 1 (Rc 0)]"

definition subscribe_then_connect :: "event list" where
  "subscribe_then_connect =
     [Subscribe ''a'' 1 (Rc 0), Connect ''broker'' 1883 None None (Rc 0),
      OnConnect 0 (\<lambda>_. Rc 0), Subscribe ''b'' 2 (Rc 0), OnDisconnect 1,
      Subscribe ''c'' 0 (Rc 0)]"

text \<open>
  Wrappers with a status observer registered: one that returns on every status, one
  that raises when told ConnectionFailed, one that raises when told Connected; and the
  first of them after a connect and its acknowledgment.
\<close>

definition observed_wrapper :: MQTTClientWrapper where
  "observed_wrapper = new_wrapper\<lparr>on_status_change := Some (\<lambda>_. Returns)\<rparr>"

definition failure_averse_wrapper :: MQTTClientWrapper where
  "failure_averse_wrapper =
     new_wrapper\<lparr>on_status_change :=
       Some (\<lambda>s. if s = CONNECTION_FAILED then Raises else Returns)\<rparr>"

definition connection_averse_wrapper :: MQTTClientWrapper where
  "connection_averse_wrapper =
     new_wrapper\<lparr>on_status_change := Some (\<lambda>s. if s = CONNECTED then Raises else Returns)\<rparr>"


text \<open>
  A wrapper whose error observer raises on every call, with three topics pending, and a
  library that refuses the subscribe request for the topic \<open>b\<close> only.
\<close>

definition error_averse_wrapper :: MQTTClientWrapper where
  "error_averse_wrapper =
     new_wrapper\<lparr>on_client_error := Some (\<lambda>_. Raises),
                 pending_subscriptions := [''a'', ''b'', ''c'']\<rparr>"

definition refuse_b :: "string \<Rightarrow> lib_result" where
  "refuse_b tp = (if tp = ''b'' then Rc 1 else Rc 0)"

section \<open>Properties of the message queue manager\<close>

lemma length_deque_append:
  "length xs \<le> maxlen \<Longrightarrow> length (deque_append maxlen xs x) \<le> maxlen"
  by (auto simp: deque_append_def Let_def)

lemma call_hook_fields [simp]:
  "message_history (snd (call_hook h a tag st)) = message_history st"
  "max_history (snd (call_hook h a tag st)) = max_history st"
  "incoming_queue (snd (call_hook h a tag st)) = incoming_queue st"
  "max_queue_size (snd (call_hook h a tag st)) = max_queue_size st"
  by (auto simp: call_hook_def split: option.splits)

lemma report_error_fields [simp]:
  "message_history (snd (report_error msg st)) = message_history st"
  "max_history (snd (report_error msg st)) = max_history st"
  by (auto simp: report_error_def call_hook_def split: option.splits hook_result.splits)

lemma update_message_rate_fields [simp]:
  "message_history (update_message_rate now st) = message_history st"
  "max_history (update_message_rate now st) = max_history st"
  by (auto simp: update_message_rate_def Let_def)

lemma handle_message_state:
  "snd (handle_message now m st) =
     (update_under_lock now m st)\<lparr>hook_calls := hook_calls (snd (handle_message now m st))\<rparr>"
  by (simp add: handle_message_def Let_def report_error_def call_hook_def
      split: option.splits hook_result.splits)

lemma update_under_lock_fields:
  "message_history (update_under_lock now m st) = deque_append (max_history st) (message_history st) m"
  "max_history (update_under_lock now m st) = max_history st"
  "rate_calculation_window (update_under_lock now m st) = rate_calculation_window st"
  "rate_history (update_under_lock now m st) =
     evict_old (now - real (rate_calculation_window st))
       (deque_append (rate_calculation_window st) (rate_history st) (timestamp m))"
  by (simp_all add: update_under_lock_def update_message_rate_def Let_def)

lemma handle_message_history:
  "message_history (snd (handle_message now m st)) = deque_append (max_history st) (message_history st) m"
  "max_history (snd (handle_message now m st)) = max_history st"
  by (subst handle_message_state, simp add: update_under_lock_fields)+

lemma add_message_history:
  "message_history (snd (add_message now tp pl mi st)) = message_history st"
  "max_history (snd (add_message now tp pl mi st)) = max_history st"
  by (auto simp: add_message_def Let_def put_nowait_def get_nowait_def report_error_def call_hook_def
      split: option.splits hook_result.splits prod.splits sum.splits list.splits)

lemma process_one_history:
  "length (message_history st) \<le> max_history st \<Longrightarrow>
   length (message_history (process_one now st)) \<le> max_history st
   \<and> max_history (process_one now st) = max_history st"
proof (cases "incoming_queue st")
  case Nil
  assume "length (message_history st) \<le> max_history st"
  with Nil show ?thesis by (simp add: process_one_def get_nowait_def)
next
  case (Cons m ms)
  assume inv: "length (message_history st) \<le> max_history st"
  let ?st1 = "st\<lparr>incoming_queue := ms\<rparr>"
  obtain r st2 where h: "handle_message now m ?st1 = (r, st2)" by (cases "handle_message now m ?st1")
  then have st2: "st2 = snd (handle_message now m ?st1)" by simp
  have "length (message_history st2) \<le> max_history st \<and> max_history st2 = max_history st"
    using inv unfolding st2 by (simp add: handle_message_history length_deque_append)
  then show ?thesis
    using Cons h by (cases r) (simp_all add: process_one_def get_nowait_def)
qed

lemma mq_step_history:
  "length (message_history st) \<le> max_history st \<Longrightarrow>
   length (message_history (mq_step op st)) \<le> max_history st \<and> max_history (mq_step op st) = max_history st"
  using process_one_history[of st]
  by (cases op) (auto simp: handle_message_history add_message_history length_deque_append
      clear_history_def clear_statistics_def)

lemma mq_run_history:
  "length (message_history st) \<le> max_history st \<Longrightarrow>
   length (message_history (mq_run ops st)) \<le> max_history st \<and> max_history (mq_run ops st) = max_history st"
proof (induction ops arbitrary: st)
  case Nil
  then show ?case by simp
next
  case (Cons op ops)
  from mq_step_history[OF Cons.prems, of op]
  have a: "length (message_history (mq_step op st)) \<le> max_history (mq_step op st)"
    and b: "max_history (mq_step op st) = max_history st" by simp_all
  from Cons.IH[OF a] b show ?case by simp
qed

lemma deque_append_drop:
  "length xs \<le> maxlen \<Longrightarrow> deque_append maxlen xs x = drop (length xs + 1 - maxlen) (xs @ [x])"
proof (cases "maxlen < length xs + 1")
  case True
  assume "length xs \<le> maxlen"
  with True have k: "length xs + 1 - maxlen = Suc 0" by simp
  have "drop (Suc 0) (xs @ [x]) = tl (xs @ [x])" by (simp only: drop_Suc drop_0)
  with True show ?thesis unfolding k by (simp add: deque_append_def Let_def)
next
  case False
  then show ?thesis by (simp add: deque_append_def Let_def)
qed

lemma drop_drop_append:
  "drop (length (drop (length l - c) l) + n - c) (drop (length l - c) l @ r)
     = drop (length l + n - c) (l @ r)"
proof (cases "length l \<le> c")
  case True
  then show ?thesis by simp
next
  case False
  define d where "d = drop (length l - c) l"
  have len: "length d = c" using False by (simp add: d_def)
  have dd: "drop n d = drop (n + (length l - c)) l" by (simp add: d_def add.commute)
  have lhs: "drop (length d + n - c) (d @ r) = drop (n + (length l - c)) l @ drop (n - c) r"
    by (simp add: len dd)
  have "n + (length l - c) - length l = n - c" "length l + n - c = n + (length l - c)"
    using False by arith+
  then have "drop (length l + n - c) (l @ r) = drop (n + (length l - c)) l @ drop (n - c) r"
    by simp
  with lhs show ?thesis unfolding d_def by simp
qed

lemma handle_all_history:
  "length (message_history st) \<le> max_history st \<Longrightarrow>
   message_history (handle_all xs st) =
     drop (length (message_history st) + length xs - max_history st) (message_history st @ map snd xs)
   \<and> max_history (handle_all xs st) = max_history st"
proof (induction xs arbitrary: st)
  case Nil
  then show ?case by simp
next
  case (Cons x xs)
  obtain now m where x: "x = (now, m)" by (cases x)
  let ?st1 = "snd (handle_message now m st)"
  let ?l = "message_history st @ [m]"
  let ?c = "max_history st"
  have h1: "message_history ?st1 = drop (length ?l - ?c) ?l"
    using Cons.prems by (simp add: handle_message_history deque_append_drop)
  have m1: "max_history ?st1 = ?c" by (simp add: handle_message_history)
  have l1: "length (message_history ?st1) \<le> max_history ?st1"
    using Cons.prems by (simp add: handle_message_history length_deque_append)
  from Cons.IH[OF l1]
  have "message_history (handle_all xs ?st1)
          = drop (length (drop (length ?l - ?c) ?l) + length xs - ?c) (drop (length ?l - ?c) ?l @ map snd xs)"
    and mh: "max_history (handle_all xs ?st1) = ?c"
    unfolding h1 m1 by simp_all
  then have "message_history (handle_all xs ?st1) = drop (length ?l + length xs - ?c) (?l @ map snd xs)"
    by (simp only: drop_drop_append)
  then show ?case using mh by (simp add: x)
qed

text \<open>
  Claim C5. The history never holds more than \<open>max_history\<close> messages (1000 by
  default): from a state within capacity, every run of operations stays within it. After
  more than \<open>max_history\<close> messages were handled, the history is exactly the last
  \<open>max_history\<close> of them, in arrival order.
\<close>

theorem history_bounded_most_recent:
  "max_history default_manager = 1000 \<and>
   (length (message_history st) \<le> max_history st \<longrightarrow>
      length (message_history (mq_run ops st)) \<le> max_history st \<and>
      (max_history st < length xs \<longrightarrow>
         message_history (handle_all xs st) = drop (length xs - max_history st) (map snd xs)))"
proof -
  have "max_history default_manager = 1000"
    by (simp add: default_manager_def new_manager_def)
  moreover have "message_history (handle_all xs st) = drop (length xs - max_history st) (map snd xs)"
    if inv: "length (message_history st) \<le> max_history st" and more: "max_history st < length xs"
  proof -
    have "length (message_history st) + length xs - max_history st
            = length (message_history st) + (length xs - max_history st)"
      using more by arith
    then show ?thesis using handle_all_history[OF inv, of xs] by simp
  qed
  ultimately show ?thesis using mq_run_history[of st ops] by blast
qed

theorem history_bounded_most_recent_witness:
  "length (message_history (new_manager 10 2)) \<le> max_history (new_manager 10 2) \<and>
   max_history (new_manager 10 2) < length three_messages \<and>
   message_history (handle_all three_messages (new_manager 10 2)) = [mk_msg ''b'' 1, mk_msg ''c'' 2] \<and>
   length (message_history (mq_run [HandleMessage 0 (mk_msg ''a'' 0), ClearHistory] (new_manager 10 2))) \<le> 2"
  using history_bounded_most_recent
    [of "new_manager 10 2" "[HandleMessage 0 (mk_msg ''a'' 0), ClearHistory]" three_messages]
  by (simp add: new_manager_def three_messages_def)

text \<open>
  Claim C10. \<open>get_recent_messages(0)\<close> returns the whole history, as
  \<open>get_recent_messages(None)\<close> does, because \<open>xs[-0:]\<close> is \<open>xs[0:]\<close>; a count
  greater than the length of the history returns the whole history too.
\<close>

theorem get_recent_messages_zero_or_large:
  "get_recent_messages (Some 0) st = message_history st \<and>
   get_recent_messages (Some 0) st = get_recent_messages None st \<and>
   (int (length (message_history st)) < c \<longrightarrow>
      get_recent_messages (Some c) st = message_history st)"
  by (simp add: get_recent_messages_def slice_from_def Let_def)

theorem get_recent_messages_zero_or_large_witness:
  "int (length (message_history (handle_all three_messages (new_manager 10 2)))) < 5 \<and>
   get_recent_messages (Some 5) (handle_all three_messages (new_manager 10 2))
     = [mk_msg ''b'' 1, mk_msg ''c'' 2] \<and>
   get_recent_messages (Some 0) (handle_all three_messages (new_manager 10 2))
     = [mk_msg ''b'' 1, mk_msg ''c'' 2] \<and>
   get_recent_messages (Some 1) (handle_all three_messages (new_manager 10 2)) = [mk_msg ''c'' 2]"
proof -
  have h: "message_history (handle_all three_messages (new_manager 10 2)) = [mk_msg ''b'' 1, mk_msg ''c'' 2]"
    using handle_all_history[of "new_manager 10 2" three_messages]
    by (simp add: new_manager_def three_messages_def)
  show ?thesis
    using get_recent_messages_zero_or_large[of "handle_all three_messages (new_manager 10 2)" 5]
    by (simp add: h get_recent_messages_def slice_from_def)
qed

lemma add_message_not_full:
  "\<not> queue_full st \<Longrightarrow>
   add_message now tp pl mi st =
     (Inr True, st\<lparr>incoming_queue := incoming_queue st @ [make_message now tp pl mi]\<rparr>)"
  by (auto simp: add_message_def queue_full_def put_nowait_def qsize_def Let_def)

lemma add_message_full_hook_ok:
  assumes "queue_full st"
    and "on_queue_full st = None \<or> (\<exists>f. on_queue_full st = Some f \<and> f (qsize st) = Returns)"
  shows "fst (add_message now tp pl mi st) = Inr (qsize st = max_queue_size st)"
    and "incoming_queue (snd (add_message now tp pl mi st)) =
           (if qsize st = max_queue_size st
            then tl (incoming_queue st) @ [make_message now tp pl mi]
            else tl (incoming_queue st))"
    and "hook_calls (snd (add_message now tp pl mi st)) =
           hook_calls st @ (if on_queue_full st = None then [] else [QueueFullCall (qsize st)])"
  using assms
  by (cases "incoming_queue st";
      auto simp: add_message_def queue_full_def put_nowait_def get_nowait_def qsize_def Let_def
        call_hook_def)+

lemma add_message_full_hook_raises:
  assumes "queue_full st" and "on_queue_full st = Some f" and "f (qsize st) = Raises"
  shows "incoming_queue (snd (add_message now tp pl mi st)) = incoming_queue st"
    and "on_error st = None \<Longrightarrow> fst (add_message now tp pl mi st) = Inr False"
    and "on_error st = Some g \<Longrightarrow> g ''Error adding message to queue'' = Returns \<Longrightarrow>
           fst (add_message now tp pl mi st) = Inr False"
    and "on_error st = Some g \<Longrightarrow> g ''Error adding message to queue'' = Raises \<Longrightarrow>
           fst (add_message now tp pl mi st) = Inl HookFailure"
    and "hook_calls (snd (add_message now tp pl mi st)) =
           hook_calls st @ QueueFullCall (qsize st) #
             (if on_error st = None then [] else [ErrorCall ''Error adding message to queue''])"
  using assms
  by (auto simp: add_message_def queue_full_def put_nowait_def qsize_def Let_def
        call_hook_def report_error_def split: option.splits hook_result.splits)

text \<open>
  Claim C4, as amended. \<open>add_message\<close> never blocks. On a queue that is not full the
  push is accepted and \<open>True\<close> returned. On a full queue, when the overflow observer is
  absent or returns, it is told the queue size, the oldest queued message is evicted and
  the push retried once: \<open>True\<close> when the retry is accepted (the queue held exactly
  \<open>max_queue_size\<close> items), else \<open>False\<close> with the new message dropped. When the
  overflow observer raises, nothing is evicted, the new message is dropped and the error
  observer is told; the result is \<open>False\<close>, unless the error observer raises as well,
  in which case its exception leaves \<open>add_message\<close>.
\<close>

theorem add_message_full_queue:
  "(\<not> queue_full st \<longrightarrow>
      add_message now tp pl mi st =
        (Inr True, st\<lparr>incoming_queue := incoming_queue st @ [make_message now tp pl mi]\<rparr>)) \<and>
   (queue_full st \<and>
    (on_queue_full st = None \<or> (\<exists>f. on_queue_full st = Some f \<and> f (qsize st) = Returns)) \<longrightarrow>
      fst (add_message now tp pl mi st) = Inr (qsize st = max_queue_size st) \<and>
      incoming_queue (snd (add_message now tp pl mi st)) =
        (if qsize st = max_queue_size st
         then tl (incoming_queue st) @ [make_message now tp pl mi]
         else tl (incoming_queue st)) \<and>
      hook_calls (snd (add_message now tp pl mi st)) =
        hook_calls st @ (if on_queue_full st = None then [] else [QueueFullCall (qsize st)])) \<and>
   (queue_full st \<and> (\<exists>f. on_queue_full st = Some f \<and> f (qsize st) = Raises) \<longrightarrow>
      incoming_queue (snd (add_message now tp pl mi st)) = incoming_queue st \<and>
      hook_calls (snd (add_message now tp pl mi st)) =
        hook_calls st @ QueueFullCall (qsize st) #
          (if on_error st = None then [] else [ErrorCall ''Error adding message to queue'']) \<and>
      fst (add_message now tp pl mi st) =
        (if \<exists>g. on_error st = Some g \<and> g ''Error adding message to queue'' = Raises
         then Inl HookFailure else Inr False))"
proof (intro conjI impI)
  assume "\<not> queue_full st"
  then show "add_message now tp pl mi st =
    (Inr True, st\<lparr>incoming_queue := incoming_queue st @ [make_message now tp pl mi]\<rparr>)"
    by (rule add_message_not_full)
next
  assume a: "queue_full st \<and>
    (on_queue_full st = None \<or> (\<exists>f. on_queue_full st = Some f \<and> f (qsize st) = Returns))"
  then have f: "queue_full st"
    and h: "on_queue_full st = None \<or> (\<exists>f. on_queue_full st = Some f \<and> f (qsize st) = Returns)"
    by simp_all
  show "fst (add_message now tp pl mi st) = Inr (qsize st = max_queue_size st)"
    by (rule add_message_full_hook_ok(1)[OF f h])
  show "incoming_queue (snd (add_message now tp pl mi st)) =
        (if qsize st = max_queue_size st
         then tl (incoming_queue st) @ [make_message now tp pl mi]
         else tl (incoming_queue st))"
    by (rule add_message_full_hook_ok(2)[OF f h])
  show "hook_calls (snd (add_message now tp pl mi st)) =
        hook_calls st @ (if on_queue_full st = None then [] else [QueueFullCall (qsize st)])"
    by (rule add_message_full_hook_ok(3)[OF f h])
next
  assume a: "queue_full st \<and> (\<exists>f. on_queue_full st = Some f \<and> f (qsize st) = Raises)"
  then obtain f where f: "queue_full st" "on_queue_full st = Some f" "f (qsize st) = Raises"
    by blast
  show "incoming_queue (snd (add_message now tp pl mi st)) = incoming_queue st"
    by (rule add_message_full_hook_raises(1)[OF f])
  show "hook_calls (snd (add_message now tp pl mi st)) =
        hook_calls st @ QueueFullCall (qsize st) #
          (if on_error st = None then [] else [ErrorCall ''Error adding message to queue''])"
    by (rule add_message_full_hook_raises(5)[OF f])
  show "fst (add_message now tp pl mi st) =
        (if \<exists>g. on_error st = Some g \<and> g ''Error adding message to queue'' = Raises
         then Inl HookFailure else Inr False)"
  proof (cases "on_error st")
    case None
    then show ?thesis using add_message_full_hook_raises(2)[OF f] by simp
  next
    case (Some g)
    then show ?thesis
      using add_message_full_hook_raises(3)[OF f Some] add_message_full_hook_raises(4)[OF f Some]
      by (cases "g ''Error adding message to queue''") simp_all
  qed
qed

theorem add_message_full_queue_witness:
  "\<not> queue_full (new_manager 2 1000) \<and>
   add_message 5 ''c'' ''x'' no_info (new_manager 2 1000) =
     (Inr True, (new_manager 2 1000)\<lparr>incoming_queue := [make_message 5 ''c'' ''x'' no_info]\<rparr>) \<and>
   queue_full full_with_quiet_hook \<and>
   fst (add_message 5 ''c'' ''x'' no_info full_with_quiet_hook) = Inr True \<and>
   incoming_queue (snd (add_message 5 ''c'' ''x'' no_info full_with_quiet_hook)) =
     [mk_msg ''b'' 1, make_message 5 ''c'' ''x'' no_info] \<and>
   hook_calls (snd (add_message 5 ''c'' ''x'' no_info full_with_quiet_hook)) = [QueueFullCall 2] \<and>
   queue_full full_with_raising_observer \<and>
   fst (add_message 5 ''c'' ''x'' no_info full_with_raising_observer) = Inr False \<and>
   incoming_queue (snd (add_message 5 ''c'' ''x'' no_info full_with_raising_observer)) =
     [mk_msg ''a'' 0]"
  using add_message_full_queue[of "new_manager 2 1000" 5 "''c''" "''x''" no_info]
    add_message_full_queue[of full_with_quiet_hook 5 "''c''" "''x''" no_info]
    add_message_full_queue[of full_with_raising_observer 5 "''c''" "''x''" no_info]
  by (simp add: queue_full_def qsize_def new_manager_def full_with_quiet_hook_def
      full_with_raising_observer_def)

text \<open>
  Claim C4 as stated fails on a full queue whose overflow observer and error observer
  both raise: the exception of the error observer leaves \<open>add_message\<close>, and the oldest
  queued message was not evicted.
\<close>

theorem add_message_raises_counterexample:
  "queue_full full_with_raising_hooks \<and>
   fst (add_message 1 ''b'' ''x'' no_info full_with_raising_hooks) = Inl HookFailure \<and>
   incoming_queue (snd (add_message 1 ''b'' ''x'' no_info full_with_raising_hooks)) =
     incoming_queue full_with_raising_hooks"
  by (simp add: full_with_raising_hooks_def queue_full_def qsize_def new_manager_def add_message_def
      put_nowait_def call_hook_def report_error_def Let_def)

lemma handle_all_append: "handle_all (xs @ ys) st = handle_all ys (handle_all xs st)"
  by (induction xs arbitrary: st) auto

lemma handle_message_stats:
  "messages_per_second (snd (handle_message now m st)) = messages_per_second (update_under_lock now m st)"
  "rate_history (snd (handle_message now m st)) = rate_history (update_under_lock now m st)"
  "rate_calculation_window (snd (handle_message now m st)) = rate_calculation_window st"
  by (subst handle_message_state, simp add: update_under_lock_fields)+

lemma handle_message_rate_history:
  "rate_history (snd (handle_message now m st)) =
     evict_old (now - real (rate_calculation_window st))
       (deque_append (rate_calculation_window st) (rate_history st) (timestamp m))"
  "rate_calculation_window (snd (handle_message now m st)) = rate_calculation_window st"
  by (simp_all add: handle_message_stats update_under_lock_fields)

lemma update_under_lock_rate:
  "messages_per_second (update_under_lock now m st) =
     (if 2 \<le> length (rate_history (update_under_lock now m st))
         \<and> hd (rate_history (update_under_lock now m st)) < now
      then real (length (rate_history (update_under_lock now m st)))
             / (now - hd (rate_history (update_under_lock now m st)))
      else 0)"
  by (auto simp: update_under_lock_def update_message_rate_def Let_def)

lemma handle_message_rate:
  "messages_per_second (snd (handle_message now m st)) =
     (if 2 \<le> length (rate_history (snd (handle_message now m st)))
         \<and> hd (rate_history (snd (handle_message now m st))) < now
      then real (length (rate_history (snd (handle_message now m st))))
             / (now - hd (rate_history (snd (handle_message now m st))))
      else 0)"
  unfolding handle_message_stats by (rule update_under_lock_rate)

lemma evict_old_keep: "xs \<noteq> [] \<Longrightarrow> \<not> hd xs < c \<Longrightarrow> evict_old c xs = xs"
  by (cases xs) auto

lemma handle_all_rate_history:
  "length (rate_history st) + length xs \<le> rate_calculation_window st \<Longrightarrow>
   (\<forall>x \<in> set xs. fst x - real (rate_calculation_window st)
        \<le> hd (rate_history st @ map (timestamp \<circ> snd) xs)) \<Longrightarrow>
   rate_history (handle_all xs st) = rate_history st @ map (timestamp \<circ> snd) xs
   \<and> rate_calculation_window (handle_all xs st) = rate_calculation_window st"
proof (induction xs arbitrary: st)
  case Nil
  then show ?case by simp
next
  case (Cons x xs)
  obtain now m where x: "x = (now, m)" by (cases x)
  let ?st1 = "snd (handle_message now m st)"
  let ?w = "rate_calculation_window st"
  let ?h = "rate_history st @ [timestamp m]"
  have len: "length (rate_history st) < ?w" using Cons.prems(1) by simp
  then have app: "deque_append ?w (rate_history st) (timestamp m) = ?h"
    by (simp add: deque_append_def Let_def)
  have hd_eq: "hd (rate_history st @ map (timestamp \<circ> snd) (x # xs)) = hd ?h"
    by (cases "rate_history st") (simp_all add: x)
  have "now - real ?w \<le> hd ?h" using Cons.prems(2) unfolding hd_eq by (simp add: x)
  then have keep: "evict_old (now - real ?w) ?h = ?h"
    by (intro evict_old_keep) auto
  have rh1: "rate_history ?st1 = ?h" by (simp add: handle_message_rate_history app keep)
  have w1: "rate_calculation_window ?st1 = ?w" by (simp add: handle_message_rate_history)
  have p1: "length (rate_history ?st1) + length xs \<le> rate_calculation_window ?st1"
    using Cons.prems(1) by (simp add: rh1 w1)
  have hd2: "hd (rate_history ?st1 @ map (timestamp \<circ> snd) xs) = hd ?h"
    unfolding rh1 by (cases "rate_history st") simp_all
  have p2: "\<forall>y \<in> set xs. fst y - real (rate_calculation_window ?st1)
              \<le> hd (rate_history ?st1 @ map (timestamp \<circ> snd) xs)"
    using Cons.prems(2) unfolding hd2 w1 hd_eq by simp
  from Cons.IH[OF p1 p2] show ?case by (simp add: x rh1 w1)
qed

lemma evenly_spaced_rate:
  assumes k: "2 \<le> k" "k \<le> 60" and d: "0 < delta" and w: "real (k - 1) * delta \<le> 60"
  shows "messages_per_second (handle_all (evenly_spaced t0 delta k) (new_manager mqs mh))
           = real k / (real (k - 1) * delta)"
proof -
  obtain n where n: "k = Suc n" using k by (cases k) auto
  have n_pos: "0 < n" using k n by simp
  define f where "f = (\<lambda>i. (t0 + real i * delta, mk_msg ''t'' (t0 + real i * delta)))"
  define init where "init = new_manager mqs mh"
  define xs where "xs = map f [0..<n]"
  define st where "st = handle_all xs init"
  define h0 where "h0 = map (timestamp \<circ> snd) xs"
  define now where "now = t0 + real n * delta"
  define m where "m = mk_msg ''t'' now"
  have init: "rate_history init = []" "rate_calculation_window init = 60"
    by (simp_all add: init_def new_manager_def)
  have split: "evenly_spaced t0 delta k = xs @ [(now, m)]"
    by (simp add: evenly_spaced_def n xs_def f_def now_def m_def)
  have ts: "timestamp m = now" by (simp add: m_def mk_msg_def)
  have len_h0: "length h0 = n" by (simp add: h0_def xs_def)
  have h0_ne: "h0 \<noteq> []" using n_pos len_h0 by auto
  have hd_h0: "hd h0 = t0"
    using n_pos by (simp add: h0_def xs_def f_def hd_map hd_upt mk_msg_def)
  have within: "\<forall>x \<in> set xs. fst x - real (rate_calculation_window init)
                  \<le> hd (rate_history init @ map (timestamp \<circ> snd) xs)"
  proof
    fix x assume "x \<in> set xs"
    then obtain i where i: "i < n" "x = f i" by (auto simp: xs_def)
    have "real i * delta \<le> real n * delta" using i d by simp
    also have "\<dots> \<le> 60" using w n by simp
    finally have "fst x - 60 \<le> t0" unfolding i(2) by (simp add: f_def)
    then show "fst x - real (rate_calculation_window init)
                  \<le> hd (rate_history init @ map (timestamp \<circ> snd) xs)"
      using hd_h0 by (simp add: init h0_def)
  qed
  have "length (rate_history init) + length xs \<le> rate_calculation_window init"
    using k n by (simp add: init xs_def)
  from handle_all_rate_history[OF this within]
  have rh: "rate_history st = h0" and win: "rate_calculation_window st = 60"
    by (simp_all add: init st_def h0_def)
  have app: "deque_append 60 h0 now = h0 @ [now]"
    using k n by (simp add: len_h0 deque_append_def Let_def)
  have hd_h: "hd (h0 @ [now]) = t0" using h0_ne hd_h0 by simp
  have "\<not> hd (h0 @ [now]) < now - 60" using w n unfolding hd_h by (simp add: now_def)
  then have keep: "evict_old (now - 60) (h0 @ [now]) = h0 @ [now]"
    by (intro evict_old_keep) auto
  have rh': "rate_history (snd (handle_message now m st)) = h0 @ [now]"
    by (simp add: handle_message_rate_history win rh ts app keep)
  have fin: "handle_all (evenly_spaced t0 delta k) (new_manager mqs mh) = snd (handle_message now m st)"
    by (simp add: split handle_all_append st_def init_def)
  have lt: "t0 < now" using d n_pos by (simp add: now_def)
  have span: "now - t0 = real (k - 1) * delta" by (simp add: now_def n)
  have "messages_per_second (snd (handle_message now m st)) = real (Suc n) / (now - t0)"
    using handle_message_rate[of now m st] n_pos lt by (simp add: rh' hd_h len_h0)
  then show ?thesis unfolding fin span by (simp add: n)
qed

text \<open>
  Claim C1, as amended. After a message is handled at clock \<open>now\<close>, the rate is the
  number of samples left in the window divided by (\<open>now\<close> minus the oldest sample in the
  window) when the window holds at least 2 samples and \<open>now\<close> is later than the oldest;
  otherwise it is 0. For \<open>k\<close> messages (\<open>2 \<le> k \<le> 60\<close>) stamped \<open>delta\<close> seconds apart,
  all within the 60 s window and each handled at the instant of its timestamp, the rate is
  \<open>k / ((k - 1) * delta)\<close>.
\<close>

theorem rate_is_count_over_clock_span:
  "messages_per_second (snd (handle_message now m st)) =
     (if 2 \<le> length (rate_history (snd (handle_message now m st)))
         \<and> hd (rate_history (snd (handle_message now m st))) < now
      then real (length (rate_history (snd (handle_message now m st))))
             / (now - hd (rate_history (snd (handle_message now m st))))
      else 0) \<and>
   (2 \<le> k \<and> k \<le> 60 \<and> 0 < delta \<and> real (k - 1) * delta \<le> 60 \<longrightarrow>
      messages_per_second (handle_all (evenly_spaced t0 delta k) (new_manager mqs mh))
        = real k / (real (k - 1) * delta))"
  using handle_message_rate[of now m st] evenly_spaced_rate[of k delta t0 mqs mh] by blast

theorem rate_is_count_over_clock_span_witness:
  "(2::nat) \<le> 3 \<and> (3::nat) \<le> 60 \<and> (0::real) < 1 \<and> real (3 - 1) * 1 \<le> 60 \<and>
   messages_per_second (handle_all (evenly_spaced 0 1 3) (new_manager 10000 1000)) = 3 / 2"
  using rate_is_count_over_clock_span[of _ _ _ 3 1 0 10000 1000] by simp

text \<open>
  Claim C1 as stated fails on three messages stamped at 0, 1 and 2 seconds and handled
  half a second after their timestamps: the window holds the three samples, the claimed
  value \<open>(3 - 1) / (2 - 0)\<close> is 1 (which is also \<open>1 / delta\<close>), and the code computes
  \<open>3 / (2.5 - 0) = 1.2\<close>.
\<close>

theorem rate_formula_counterexample:
  "rate_history (handle_all lagged_messages default_manager) = [0, 1, 2] \<and>
   messages_per_second (handle_all lagged_messages default_manager) = 6 / 5 \<and>
   (real (length (rate_history (handle_all lagged_messages default_manager))) - 1)
     / (last (rate_history (handle_all lagged_messages default_manager))
         - hd (rate_history (handle_all lagged_messages default_manager))) = 1"
proof -
  define s1 where "s1 = snd (handle_message (1/2) (mk_msg ''a'' 0) default_manager)"
  define s2 where "s2 = snd (handle_message (3/2) (mk_msg ''b'' 1) s1)"
  define s3 where "s3 = snd (handle_message (5/2) (mk_msg ''c'' 2) s2)"
  have fin: "handle_all lagged_messages default_manager = s3"
    by (simp add: lagged_messages_def s1_def s2_def s3_def)
  have s0: "rate_calculation_window default_manager = 60" "rate_history default_manager = []"
    by (simp_all add: default_manager_def new_manager_def)
  have w1: "rate_calculation_window s1 = 60" by (simp add: s1_def handle_message_rate_history s0)
  have r1: "rate_history s1 = [0]"
    by (simp add: s1_def handle_message_rate_history s0 deque_append_def mk_msg_def)
  have w2: "rate_calculation_window s2 = 60" by (simp add: s2_def handle_message_rate_history w1)
  have r2: "rate_history s2 = [0, 1]"
    by (simp add: s2_def handle_message_rate_history w1 r1 deque_append_def mk_msg_def)
  have r3: "rate_history s3 = [0, 1, 2]"
    by (simp add: s3_def handle_message_rate_history w2 r2 deque_append_def mk_msg_def)
  have "messages_per_second s3 = 6 / 5"
    using handle_message_rate[of "5/2" "mk_msg ''c'' 2" s2] by (simp add: s3_def[symmetric] r3)
  then show ?thesis by (simp add: fin r3)
qed

section \<open>Properties of the topic validator\<close>

lemma no_invalid_char_iff: "no_invalid_char cs t \<longleftrightarrow> (\<forall>c \<in> set cs. c \<notin> set t)"
  by (induction cs) auto

lemma wildcards_standalone_iff:
  "wildcards_standalone ps \<longleftrightarrow>
     (\<forall>seg \<in> set ps. (CHR ''+'' \<in> set seg \<longrightarrow> seg = ''+'') \<and> (CHR ''#'' \<in> set seg \<longrightarrow> seg = ''#''))"
  by (induction ps) auto

lemma split_on_nonempty: "split_on sep t \<noteq> []"
  by (induction t) (auto split: list.splits)

lemma split_on_mem:
  "c \<noteq> sep \<Longrightarrow> c \<in> set t \<longleftrightarrow> (\<exists>seg \<in> set (split_on sep t). c \<in> set seg)"
proof (induction t)
  case Nil
  then show ?case by simp
next
  case (Cons a t)
  then show ?case
    using split_on_nonempty[of sep t]
    by (cases "split_on sep t") auto
qed

lemma split_on_single: "split_on sep t = [p] \<Longrightarrow> t = p"
proof (induction t arbitrary: p)
  case Nil
  then show ?case by simp
next
  case (Cons a t)
  then show ?case
    using split_on_nonempty[of sep t]
    by (cases "split_on sep t") (auto split: if_splits)
qed

lemma split_on_last:
  "last (split_on sep t) \<noteq> [] \<Longrightarrow> t \<noteq> [] \<and> last t = last (last (split_on sep t))"
proof (induction t)
  case Nil
  then show ?case by simp
next
  case (Cons a t)
  obtain p ps where sp: "split_on sep t = p # ps"
    using split_on_nonempty[of sep t] by (cases "split_on sep t") auto
  show ?case
  proof (cases ps)
    case Nil
    with sp have "t = p" by (simp add: split_on_single)
    with Nil sp Cons.prems show ?thesis by (auto split: if_splits)
  next
    case (Cons q qs)
    with sp Cons.prems have "last (split_on sep t) \<noteq> []" by (auto split: if_splits)
    with Cons.IH have "t \<noteq> []" "last t = last (last (split_on sep t))" by simp_all
    with Cons sp show ?thesis by auto
  qed
qed

lemma split_on_last_char:
  "t \<noteq> [] \<Longrightarrow> last t \<noteq> sep \<Longrightarrow>
   last (split_on sep t) \<noteq> [] \<and> last (last (split_on sep t)) = last t"
proof (induction t)
  case Nil
  then show ?case by simp
next
  case (Cons a t)
  show ?case
  proof (cases t)
    case Nil
    with Cons.prems show ?thesis by simp
  next
    case (Cons b u)
    with Cons.prems Cons.IH have ih: "last (split_on sep t) \<noteq> [] \<and> last (last (split_on sep t)) = last t"
      by simp
    then show ?thesis
      using Cons split_on_nonempty[of sep t]
      by (cases "split_on sep t"; cases "tl (split_on sep t)") auto
  qed
qed

lemma endswith_hash: "endswith t ''#'' \<longleftrightarrow> t \<noteq> [] \<and> last t = CHR ''#''"
proof (cases t rule: rev_cases)
  case Nil
  then show ?thesis by (simp add: endswith_def)
next
  case (snoc ys y)
  then show ?thesis by (auto simp: endswith_def)
qed

lemma accepts_spec_valid_nonblank:
  assumes "spec_valid_topic t" and "strip t \<noteq> []"
  shows "validate_topic t"
proof -
  let ?ps = "split_on CHR ''/'' t"
  from assms(1) have ne: "t \<noteq> []"
    and inv: "\<forall>c \<in> set invalid_chars. c \<notin> set t"
    and segs: "\<forall>seg \<in> set ?ps.
          (CHR ''+'' \<in> set seg \<longrightarrow> seg = ''+'') \<and> (CHR ''#'' \<in> set seg \<longrightarrow> seg = ''#'')"
    and fin: "\<forall>seg \<in> set (butlast ?ps). CHR ''#'' \<notin> set seg"
    by (simp_all add: spec_valid_topic_def)
  have "endswith t ''#''" if h: "CHR ''#'' \<in> set t"
  proof -
    from h obtain seg where seg: "seg \<in> set ?ps" "CHR ''#'' \<in> set seg"
      using split_on_mem[of "CHR ''#''" "CHR ''/''" t] by auto
    have "?ps = butlast ?ps @ [last ?ps]" using split_on_nonempty by simp
    then have "set ?ps = set (butlast ?ps) \<union> {last ?ps}"
      by (metis Un_insert_right list.simps(15) set_append sup_bot.right_neutral list.set(1))
    with seg fin have "seg = last ?ps" by auto
    moreover from seg segs have "seg = ''#''" by auto
    ultimately have "last ?ps = ''#''" by simp
    then show ?thesis using split_on_last[of "CHR ''/''" t] by (simp add: endswith_hash)
  qed
  then show ?thesis
    using ne assms(2) inv segs
    by (auto simp: validate_topic_def no_invalid_char_iff wildcards_standalone_iff)
qed

lemma accepted_topic_properties:
  assumes "validate_topic t"
  shows "strip t \<noteq> []"
    and "\<forall>c \<in> set invalid_chars. c \<notin> set t"
    and "\<forall>seg \<in> set (split_on CHR ''/'' t).
          (CHR ''+'' \<in> set seg \<longrightarrow> seg = ''+'') \<and> (CHR ''#'' \<in> set seg \<longrightarrow> seg = ''#'')"
    and "CHR ''#'' \<in> set t \<longrightarrow> last (split_on CHR ''/'' t) = ''#''"
proof -
  let ?ps = "split_on CHR ''/'' t"
  from assms have ne: "t \<noteq> []" and sp: "strip t \<noteq> []"
    and inv: "no_invalid_char invalid_chars t" and segs: "wildcards_standalone ?ps"
    and e: "CHR ''#'' \<in> set t \<longrightarrow> endswith t ''#''"
    by (auto simp: validate_topic_def split: if_splits)
  show "strip t \<noteq> []" by (rule sp)
  show "\<forall>c \<in> set invalid_chars. c \<notin> set t" using inv by (simp add: no_invalid_char_iff)
  show s: "\<forall>seg \<in> set ?ps.
          (CHR ''+'' \<in> set seg \<longrightarrow> seg = ''+'') \<and> (CHR ''#'' \<in> set seg \<longrightarrow> seg = ''#'')"
    using segs by (simp add: wildcards_standalone_iff)
  show "CHR ''#'' \<in> set t \<longrightarrow> last ?ps = ''#''"
  proof
    assume "CHR ''#'' \<in> set t"
    with e have l: "t \<noteq> []" "last t = CHR ''#''" by (simp_all add: endswith_hash)
    then have "last ?ps \<noteq> [] \<and> last (last ?ps) = CHR ''#''"
      using split_on_last_char[of t "CHR ''/''"] by simp
    then have "CHR ''#'' \<in> set (last ?ps)" by (metis last_in_set)
    moreover have "last ?ps \<in> set ?ps" using split_on_nonempty by simp
    ultimately show "last ?ps = ''#''" using s by blast
  qed
qed

text \<open>
  Claim C9, as amended. The validator accepts every topic that meets the four conditions
  of the specification and is not blank (not empty once whitespace is stripped). Every
  topic it accepts is not blank, contains none of NUL, tab, CR, LF, has every segment
  that contains \<open>+\<close> or \<open>#\<close> equal to that single character and, when it contains
  \<open>#\<close>, has \<open>#\<close> as its final segment. It rejects \<open>sensor/#/data\<close> and \<open>a+b/x\<close> and
  accepts \<open>sensor/+/data\<close> and \<open>home/#\<close>.
\<close>

theorem validate_topic_characterised:
  "(spec_valid_topic t \<and> strip t \<noteq> [] \<longrightarrow> validate_topic t) \<and>
   (validate_topic t \<longrightarrow>
      strip t \<noteq> [] \<and>
      (\<forall>c \<in> set invalid_chars. c \<notin> set t) \<and>
      (\<forall>seg \<in> set (split_on CHR ''/'' t).
          (CHR ''+'' \<in> set seg \<longrightarrow> seg = ''+'') \<and> (CHR ''#'' \<in> set seg \<longrightarrow> seg = ''#'')) \<and>
      (CHR ''#'' \<in> set t \<longrightarrow> last (split_on CHR ''/'' t) = ''#'')) \<and>
   \<not> validate_topic ''sensor/#/data'' \<and> \<not> validate_topic ''a+b/x'' \<and>
   validate_topic ''sensor/+/data'' \<and> validate_topic ''home/#''"
proof -
  have "\<not> validate_topic ''sensor/#/data'' \<and> \<not> validate_topic ''a+b/x'' \<and>
        validate_topic ''sensor/+/data'' \<and> validate_topic ''home/#''"
    by (simp add: validate_topic_def strip_def isspace_def invalid_chars_def endswith_def)
  then show ?thesis
    using accepts_spec_valid_nonblank[of t] accepted_topic_properties[of t] by blast
qed

theorem validate_topic_characterised_witness:
  "spec_valid_topic ''home/#'' \<and> strip ''home/#'' \<noteq> [] \<and> validate_topic ''home/#'' \<and>
   CHR ''#'' \<in> set ''home/#'' \<and> last (split_on CHR ''/'' ''home/#'') = ''#''"
  using validate_topic_characterised[of "''home/#''"]
  by (simp add: spec_valid_topic_def strip_def isspace_def invalid_chars_def)

text \<open>
  Claim C9 as stated fails on the topic of one space: it is non-empty and meets the
  other three conditions, and the validator rejects it, because it is blank.
\<close>

theorem validate_topic_blank_counterexample:
  "spec_valid_topic '' '' \<and> \<not> validate_topic '' ''"
  by (simp add: validate_topic_def strip_def isspace_def invalid_chars_def spec_valid_topic_def)

section \<open>Properties of the client wrapper\<close>

lemma backoff_delay_below: "n < 1024 \<Longrightarrow> backoff_delay n = Inr (min (2 ^ n) 60)"
  by (simp add: backoff_delay_def float_of_pow2_def reconnect_delay_base_def reconnect_delay_max_def)

lemma backoff_delay_sequence:
  "map backoff_delay [0, 1, 2, 3, 4, 5, 6, 7, 8] = map Inr [1, 2, 4, 8, 16, 32, 60, 60, 60]"
  by (simp add: backoff_delay_below)

lemma backoff_delay_overflow: "1024 \<le> n \<Longrightarrow> backoff_delay n = Inl OverflowError"
  by (simp add: backoff_delay_def float_of_pow2_def)

lemma run_append: "run (xs @ ys) st = run ys (run xs st)"
  by (induction xs arbitrary: st) auto

lemma cancel_reconnect_timer_eq: "cancel_reconnect_timer st = st\<lparr>reconnect_timer := None\<rparr>"
  by (cases "reconnect_timer st") (simp_all add: cancel_reconnect_timer_def)

lemma set_status_result:
  "fst (set_status s st) =
     (if status st \<noteq> s \<and> status_observer_raises s st then Inl HookFailure else Inr ())"
  "snd (set_status s st) =
     (if status st = s then st
      else st\<lparr>status := s,
              status_notifications :=
                status_notifications st @ (if on_status_change st = None then [] else [s])\<rparr>)"
  by (auto simp: set_status_def status_observer_raises_def raised_def Let_def
      split: option.splits hook_result.splits)

lemma connect_fails_all:
  assumes "status st \<noteq> CONNECTED" "status st \<noteq> CONNECTING" "lib \<noteq> Rc 0"
  shows "(fst (connect h p usr pwd lib st) =
           (if status_observer_raises CONNECTION_FAILED st \<and>
               (status_observer_raises CONNECTING st \<or> lib = LibRaises)
            then Inl HookFailure else Inr False)) \<and>
   (status (snd (connect h p usr pwd lib st)) = CONNECTION_FAILED) \<and>
   (last_error (snd (connect h p usr pwd lib st)) =
           Some (if lib \<noteq> LibRaises \<and> \<not> status_observer_raises CONNECTING st
                    \<and> \<not> status_observer_raises CONNECTION_FAILED st
                 then ''Connection failed'' else ''Connection error'')) \<and>
   (reconnect_timer (snd (connect h p usr pwd lib st)) = reconnect_timer st) \<and>
   (reconnect_attempts (snd (connect h p usr pwd lib st)) = reconnect_attempts st) \<and>
   (auto_reconnect (snd (connect h p usr pwd lib st)) = auto_reconnect st) \<and>
   (host (snd (connect h p usr pwd lib st)) = Some h) \<and>
   (on_status_change (snd (connect h p usr pwd lib st)) = on_status_change st)"
proof (cases "on_status_change st")
  case None
  then show ?thesis
    using assms
    by (cases lib)
       (simp_all add: connect_def connect_handler_def set_status_def status_observer_raises_def Let_def)
next
  case (Some f)
  then show ?thesis
    using assms
    by (cases lib; cases "f CONNECTING"; cases "f CONNECTION_FAILED")
       (simp_all add: connect_def connect_handler_def set_status_def status_observer_raises_def
          raised_def Let_def)
qed

lemma connect_fails:
  assumes "status st \<noteq> CONNECTED" "status st \<noteq> CONNECTING" "lib \<noteq> Rc 0"
  shows "fst (connect h p usr pwd lib st) =
           (if status_observer_raises CONNECTION_FAILED st \<and>
               (status_observer_raises CONNECTING st \<or> lib = LibRaises)
            then Inl HookFailure else Inr False)"
    and "status (snd (connect h p usr pwd lib st)) = CONNECTION_FAILED"
    and "last_error (snd (connect h p usr pwd lib st)) =
           Some (if lib \<noteq> LibRaises \<and> \<not> status_observer_raises CONNECTING st
                    \<and> \<not> status_observer_raises CONNECTION_FAILED st
                 then ''Connection failed'' else ''Connection error'')"
    and "reconnect_timer (snd (connect h p usr pwd lib st)) = reconnect_timer st"
    and "reconnect_attempts (snd (connect h p usr pwd lib st)) = reconnect_attempts st"
    and "auto_reconnect (snd (connect h p usr pwd lib st)) = auto_reconnect st"
    and "host (snd (connect h p usr pwd lib st)) = Some h"
    and "on_status_change (snd (connect h p usr pwd lib st)) = on_status_change st"
  using connect_fails_all[OF assms, of h p usr pwd] by blast+

lemma schedule_reconnect_ok:
  assumes "auto_reconnect st" "\<not> no_host st" "reconnect_attempts st < 1024"
  shows "schedule_reconnect st =
           (Inr (), st\<lparr>reconnect_attempts := reconnect_attempts st + 1,
                        reconnect_timer := Some (min (2 ^ reconnect_attempts st) 60)\<rparr>)"
  using assms
  by (simp add: schedule_reconnect_def cancel_reconnect_timer_eq backoff_delay_below Let_def)

lemma attempt_reconnect_unfold:
  assumes "status st \<noteq> CONNECTED" "host st = Some h" "h \<noteq> []"
  shows "attempt_reconnect lib st =
     (case fst (connect h (case port st of None \<Rightarrow> 1883 | Some p \<Rightarrow> p)
                  (username st) (password st) lib st) of
        Inl e \<Rightarrow> (Inl e, snd (connect h (case port st of None \<Rightarrow> 1883 | Some p \<Rightarrow> p)
                  (username st) (password st) lib st))
      | Inr success \<Rightarrow>
          (if \<not> success
           then schedule_reconnect (snd (connect h (case port st of None \<Rightarrow> 1883 | Some p \<Rightarrow> p)
                  (username st) (password st) lib st))
           else (Inr (), snd (connect h (case port st of None \<Rightarrow> 1883 | Some p \<Rightarrow> p)
                  (username st) (password st) lib st))))"
  using assms by (simp add: attempt_reconnect_def split: prod.splits sum.splits)

lemma attempt_reconnect_fails_all:
  assumes "status st \<noteq> CONNECTED" "status st \<noteq> CONNECTING" "lib \<noteq> Rc 0"
    and "auto_reconnect st" "\<not> no_host st" "reconnect_attempts st < 1024"
  shows "status (snd (attempt_reconnect lib st)) = CONNECTION_FAILED \<and>
     auto_reconnect (snd (attempt_reconnect lib st)) \<and>
     host (snd (attempt_reconnect lib st)) = host st \<and>
     on_status_change (snd (attempt_reconnect lib st)) = on_status_change st \<and>
     (if status_observer_raises CONNECTION_FAILED st \<and>
         (status_observer_raises CONNECTING st \<or> lib = LibRaises)
      then fst (attempt_reconnect lib st) = Inl HookFailure \<and>
           reconnect_timer (snd (attempt_reconnect lib st)) = reconnect_timer st \<and>
           reconnect_attempts (snd (attempt_reconnect lib st)) = reconnect_attempts st
      else fst (attempt_reconnect lib st) = Inr () \<and>
           reconnect_timer (snd (attempt_reconnect lib st)) =
             Some (min (2 ^ reconnect_attempts st) 60) \<and>
           reconnect_attempts (snd (attempt_reconnect lib st)) = reconnect_attempts st + 1)"
proof -
  obtain h where h: "host st = Some h" "h \<noteq> []"
    using assms(5) by (auto simp: no_host_def split: option.splits)
  define c where "c = connect h (case port st of None \<Rightarrow> 1883 | Some p \<Rightarrow> p)
     (username st) (password st) lib st"
  note cf = connect_fails[OF assms(1-3), of h "case port st of None \<Rightarrow> 1883 | Some p \<Rightarrow> p"
      "username st" "password st", folded c_def]
  have ar: "attempt_reconnect lib st =
     (case fst c of Inl e \<Rightarrow> (Inl e, snd c)
      | Inr success \<Rightarrow> (if \<not> success then schedule_reconnect (snd c) else (Inr (), snd c)))"
    unfolding c_def by (rule attempt_reconnect_unfold[OF assms(1) h])
  show ?thesis
  proof (cases "status_observer_raises CONNECTION_FAILED st \<and>
         (status_observer_raises CONNECTING st \<or> lib = LibRaises)")
    case True
    then have "attempt_reconnect lib st = (Inl HookFailure, snd c)"
      using cf(1) by (simp add: ar)
    then show ?thesis using True cf assms(4) h by simp
  next
    case False
    then have f: "fst c = Inr False" using cf(1) by auto
    have nh: "\<not> no_host (snd c)" using cf(7) h by (simp add: no_host_def)
    have a: "auto_reconnect (snd c)" using cf(6) assms(4) by simp
    have n: "reconnect_attempts (snd c) < 1024" using cf(5) assms(6) by simp
    have "attempt_reconnect lib st =
      (Inr (), (snd c)\<lparr>reconnect_attempts := reconnect_attempts (snd c) + 1,
                        reconnect_timer := Some (min (2 ^ reconnect_attempts (snd c)) 60)\<rparr>)"
      using schedule_reconnect_ok[OF a nh n] f by (simp add: ar)
    then show ?thesis using False cf assms(4) h by simp
  qed
qed

lemma outage_0:
  "status (run (outage 0) new_wrapper) = CONNECTION_LOST"
  "reconnect_attempts (run (outage 0) new_wrapper) = 1"
  "auto_reconnect (run (outage 0) new_wrapper)"
  "host (run (outage 0) new_wrapper) = Some ''broker''"
  "on_status_change (run (outage 0) new_wrapper) = None"
  by (simp_all add: outage_def new_wrapper_def connect_def set_status_def on_connect_def
      cancel_reconnect_timer_eq on_disconnect_def schedule_reconnect_def no_host_def
      notify_connected_def backoff_delay_below Let_def)

lemma outage_state:
  "n \<le> 1023 \<Longrightarrow>
   reconnect_attempts (run (outage n) new_wrapper) = n + 1 \<and>
   status (run (outage n) new_wrapper) \<noteq> CONNECTED \<and>
   status (run (outage n) new_wrapper) \<noteq> CONNECTING \<and>
   auto_reconnect (run (outage n) new_wrapper) \<and>
   host (run (outage n) new_wrapper) = Some ''broker'' \<and>
   on_status_change (run (outage n) new_wrapper) = None"
proof (induction n)
  case 0
  then show ?case by (simp add: outage_0)
next
  case (Suc n)
  let ?st = "run (outage n) new_wrapper"
  have "replicate (Suc n) (TimerFires LibRaises) = replicate n (TimerFires LibRaises) @ [TimerFires LibRaises]"
    by (simp add: replicate_append_same)
  then have "outage (Suc n) = outage n @ [TimerFires LibRaises]"
    unfolding outage_def by (simp only: append_assoc)
  then have step: "run (outage (Suc n)) new_wrapper = snd (attempt_reconnect LibRaises ?st)"
    by (simp add: run_append)
  from Suc have ih: "reconnect_attempts ?st = n + 1" "status ?st \<noteq> CONNECTED"
    "status ?st \<noteq> CONNECTING" "auto_reconnect ?st" "host ?st = Some ''broker''"
    "on_status_change ?st = None"
    by simp_all
  have nh: "\<not> no_host ?st" using ih(5) by (simp add: no_host_def)
  have lt: "reconnect_attempts ?st < 1024" using ih(1) Suc.prems by simp
  have l: "LibRaises \<noteq> Rc 0" by simp
  have q: "\<not> status_observer_raises CONNECTION_FAILED ?st"
    by (simp add: status_observer_raises_def ih(6))
  note a = attempt_reconnect_fails_all[OF ih(2) ih(3) l ih(4) nh lt]
  show ?case unfolding step using a ih q by simp
qed

text \<open>
  Claim C6. The delay of scheduling attempt \<open>n\<close> is \<open>min (2 ^ n) 60\<close> for every
  \<open>n < 1024\<close> (\<open>backoff_delay_below\<close>, and the first nine delays in
  \<open>backoff_delay_sequence\<close>). After a connection loss followed by 1023 failed
  reconnect attempts the counter is 1024, and the next attempt raises
  \<open>OverflowError\<close> while computing the delay: the old timer is cancelled, no new timer
  is stored and the counter stays at 1024.
\<close>

theorem backoff_overflow_after_long_outage:
  "map backoff_delay [0, 1, 2, 3, 4, 5, 6, 7, 8] = map Inr [1, 2, 4, 8, 16, 32, 60, 60, 60] \<and>
   backoff_delay 1024 = Inl OverflowError \<and>
   reconnect_attempts (run (outage 1023) new_wrapper) = 1024 \<and>
   attempt_reconnect LibRaises (run (outage 1023) new_wrapper) =
     (Inl OverflowError, snd (attempt_reconnect LibRaises (run (outage 1023) new_wrapper))) \<and>
   reconnect_timer (snd (attempt_reconnect LibRaises (run (outage 1023) new_wrapper))) = None \<and>
   reconnect_attempts (snd (attempt_reconnect LibRaises (run (outage 1023) new_wrapper))) = 1024"
proof -
  let ?st = "run (outage 1023) new_wrapper"
  have s: "reconnect_attempts ?st = 1024" "status ?st \<noteq> CONNECTED"
    "status ?st \<noteq> CONNECTING" "auto_reconnect ?st" "host ?st = Some ''broker''"
    "on_status_change ?st = None"
    using outage_state[of 1023] by simp_all
  define c where "c = connect ''broker'' (case port ?st of None \<Rightarrow> 1883 | Some p \<Rightarrow> p)
     (username ?st) (password ?st) LibRaises ?st"
  have l: "LibRaises \<noteq> Rc 0" by simp
  have q: "\<not> status_observer_raises CONNECTION_FAILED ?st"
    by (simp add: status_observer_raises_def s(6))
  have c1: "fst c = Inr False" "reconnect_attempts (snd c) = 1024" "auto_reconnect (snd c)"
    "host (snd c) = Some ''broker''"
    unfolding c_def using connect_fails[OF s(2) s(3) l] s q by simp_all
  have ar: "attempt_reconnect LibRaises ?st = schedule_reconnect (snd c)"
    using attempt_reconnect_unfold[OF s(2) s(5), of LibRaises] c1(1)
    by (simp add: c_def[symmetric])
  have "schedule_reconnect (snd c) = (Inl OverflowError, cancel_reconnect_timer (snd c))"
    using c1 by (simp add: schedule_reconnect_def no_host_def backoff_delay_overflow
        cancel_reconnect_timer_eq Let_def)
  then show ?thesis using s(1) c1(2) backoff_delay_sequence backoff_delay_overflow[of 1024]
    by (simp add: ar cancel_reconnect_timer_eq)
qed

text \<open>
  Claim C2, as amended. A \<open>connect\<close> accepted from Disconnected, ConnectionFailed or
  ConnectionLost whose library call fails (a result code other than 0, or an exception)
  sets the status to ConnectionFailed, records \<open>last_error\<close> and schedules nothing: the
  stored timer and the attempt counter are as before the call. It returns \<open>False\<close>,
  unless the status observer raises when the exception handler tells it
  ConnectionFailed, which happens after the library call raised (or after the observer
  raised on Connecting, so that the library was not called): then the observer's
  exception leaves \<open>connect\<close>. When the call was made by the reconnect timer
  (\<open>_attempt_reconnect\<close>) with auto-reconnect enabled, a host recorded and the attempt
  counter \<open>n\<close> below 1024, a reconnect with delay \<open>min (2 ^ n) 60\<close> is scheduled if
  \<open>connect\<close> returned \<open>False\<close>, and nothing is scheduled if the exception left it.
\<close>

theorem connect_sync_failure:
  "(status st \<noteq> CONNECTED \<and> status st \<noteq> CONNECTING \<and> lib \<noteq> Rc 0 \<longrightarrow>
      status (snd (connect h p usr pwd lib st)) = CONNECTION_FAILED \<and>
      last_error (snd (connect h p usr pwd lib st)) =
        Some (if lib \<noteq> LibRaises \<and> \<not> status_observer_raises CONNECTING st
                 \<and> \<not> status_observer_raises CONNECTION_FAILED st
              then ''Connection failed'' else ''Connection error'') \<and>
      fst (connect h p usr pwd lib st) =
        (if status_observer_raises CONNECTION_FAILED st \<and>
            (status_observer_raises CONNECTING st \<or> lib = LibRaises)
         then Inl HookFailure else Inr False) \<and>
      reconnect_timer (snd (connect h p usr pwd lib st)) = reconnect_timer st \<and>
      reconnect_attempts (snd (connect h p usr pwd lib st)) = reconnect_attempts st) \<and>
   (status st \<noteq> CONNECTED \<and> status st \<noteq> CONNECTING \<and> lib \<noteq> Rc 0 \<and>
    auto_reconnect st \<and> \<not> no_host st \<and> reconnect_attempts st < 1024 \<longrightarrow>
      status (snd (attempt_reconnect lib st)) = CONNECTION_FAILED \<and>
      (if status_observer_raises CONNECTION_FAILED st \<and>
          (status_observer_raises CONNECTING st \<or> lib = LibRaises)
       then fst (attempt_reconnect lib st) = Inl HookFailure \<and>
            reconnect_timer (snd (attempt_reconnect lib st)) = reconnect_timer st \<and>
            reconnect_attempts (snd (attempt_reconnect lib st)) = reconnect_attempts st
       else fst (attempt_reconnect lib st) = Inr () \<and>
            reconnect_timer (snd (attempt_reconnect lib st)) =
              Some (min (2 ^ reconnect_attempts st) 60) \<and>
            reconnect_attempts (snd (attempt_reconnect lib st)) = reconnect_attempts st + 1))"
proof (intro conjI impI)
  assume a: "status st \<noteq> CONNECTED \<and> status st \<noteq> CONNECTING \<and> lib \<noteq> Rc 0"
  then have a1: "status st \<noteq> CONNECTED" and a2: "status st \<noteq> CONNECTING" and a3: "lib \<noteq> Rc 0"
    by simp_all
  note c = connect_fails[OF a1 a2 a3, of h p usr pwd]
  show "status (snd (connect h p usr pwd lib st)) = CONNECTION_FAILED" by (rule c(2))
  show "last_error (snd (connect h p usr pwd lib st)) =
        Some (if lib \<noteq> LibRaises \<and> \<not> status_observer_raises CONNECTING st
                 \<and> \<not> status_observer_raises CONNECTION_FAILED st
              then ''Connection failed'' else ''Connection error'')" by (rule c(3))
  show "fst (connect h p usr pwd lib st) =
        (if status_observer_raises CONNECTION_FAILED st \<and>
            (status_observer_raises CONNECTING st \<or> lib = LibRaises)
         then Inl HookFailure else Inr False)" by (rule c(1))
  show "reconnect_timer (snd (connect h p usr pwd lib st)) = reconnect_timer st" by (rule c(4))
  show "reconnect_attempts (snd (connect h p usr pwd lib st)) = reconnect_attempts st" by (rule c(5))
next
  assume a: "status st \<noteq> CONNECTED \<and> status st \<noteq> CONNECTING \<and> lib \<noteq> Rc 0 \<and>
    auto_reconnect st \<and> \<not> no_host st \<and> reconnect_attempts st < 1024"
  then have a1: "status st \<noteq> CONNECTED" and a2: "status st \<noteq> CONNECTING" and a3: "lib \<noteq> Rc 0"
    and a4: "auto_reconnect st" and a5: "\<not> no_host st" and a6: "reconnect_attempts st < 1024"
    by simp_all
  note r = attempt_reconnect_fails_all[OF a1 a2 a3 a4 a5 a6]
  show "status (snd (attempt_reconnect lib st)) = CONNECTION_FAILED" using r by simp
  show "if status_observer_raises CONNECTION_FAILED st \<and>
          (status_observer_raises CONNECTING st \<or> lib = LibRaises)
       then fst (attempt_reconnect lib st) = Inl HookFailure \<and>
            reconnect_timer (snd (attempt_reconnect lib st)) = reconnect_timer st \<and>
            reconnect_attempts (snd (attempt_reconnect lib st)) = reconnect_attempts st
       else fst (attempt_reconnect lib st) = Inr () \<and>
            reconnect_timer (snd (attempt_reconnect lib st)) =
              Some (min (2 ^ reconnect_attempts st) 60) \<and>
            reconnect_attempts (snd (attempt_reconnect lib st)) = reconnect_attempts st + 1"
    using r by simp
qed

theorem connect_sync_failure_witness:
  "status new_wrapper = DISCONNECTED \<and>
   connect ''broker'' 1883 None None (Rc 1) new_wrapper =
     (Inr False, new_wrapper\<lparr>status := CONNECTION_FAILED, host := Some ''broker'',
                port := Some 1883, connection_attempts := 1,
                last_error := Some ''Connection failed''\<rparr>) \<and>
   fst (connect ''broker'' 1883 None None LibRaises observed_wrapper) = Inr False \<and>
   status_notifications (snd (connect ''broker'' 1883 None None LibRaises observed_wrapper)) =
     [CONNECTING, CONNECTION_FAILED] \<and>
   fst (connect ''broker'' 1883 None None LibRaises failure_averse_wrapper) = Inl HookFailure \<and>
   status (snd (connect ''broker'' 1883 None None LibRaises failure_averse_wrapper)) =
     CONNECTION_FAILED \<and>
   fst (connect ''broker'' 1883 None None (Rc 1) failure_averse_wrapper) = Inr False \<and>
   last_error (snd (connect ''broker'' 1883 None None (Rc 1) failure_averse_wrapper)) =
     Some ''Connection error'' \<and>
   status (run (outage 0) new_wrapper) = CONNECTION_LOST \<and>
   auto_reconnect (run (outage 0) new_wrapper) \<and> \<not> no_host (run (outage 0) new_wrapper) \<and>
   reconnect_attempts (run (outage 0) new_wrapper) = 1 \<and>
   fst (attempt_reconnect LibRaises (run (outage 0) new_wrapper)) = Inr () \<and>
   status (snd (attempt_reconnect LibRaises (run (outage 0) new_wrapper))) = CONNECTION_FAILED \<and>
   reconnect_timer (snd (attempt_reconnect LibRaises (run (outage 0) new_wrapper))) = Some 2 \<and>
   reconnect_attempts (snd (attempt_reconnect LibRaises (run (outage 0) new_wrapper))) = 2 \<and>
   fst (attempt_reconnect LibRaises
          (snd (connect ''broker'' 1883 None None (Rc 1) failure_averse_wrapper))) = Inl HookFailure \<and>
   reconnect_timer (snd (attempt_reconnect LibRaises
          (snd (connect ''broker'' 1883 None None (Rc 1) failure_averse_wrapper)))) = None"
proof -
  have c: "connect ''broker'' 1883 None None (Rc 1) new_wrapper =
     (Inr False, new_wrapper\<lparr>status := CONNECTION_FAILED, host := Some ''broker'',
                port := Some 1883, connection_attempts := 1,
                last_error := Some ''Connection failed''\<rparr>)"
    by (simp add: new_wrapper_def connect_def set_status_def Let_def)
  have o: "status_notifications (snd (connect ''broker'' 1883 None None LibRaises observed_wrapper)) =
     [CONNECTING, CONNECTION_FAILED]"
    by (simp add: observed_wrapper_def new_wrapper_def connect_def connect_handler_def
        set_status_def raised_def Let_def)
  have obs: "\<not> status_observer_raises s new_wrapper" "\<not> status_observer_raises s observed_wrapper"
    "status_observer_raises s failure_averse_wrapper = (s = CONNECTION_FAILED)" for s
    by (simp_all add: status_observer_raises_def new_wrapper_def observed_wrapper_def
        failure_averse_wrapper_def)
  have st: "status new_wrapper = DISCONNECTED" "status observed_wrapper = DISCONNECTED"
    "status failure_averse_wrapper = DISCONNECTED"
    by (simp_all add: new_wrapper_def observed_wrapper_def failure_averse_wrapper_def)
  define fa where "fa = snd (connect ''broker'' 1883 None None (Rc 1) failure_averse_wrapper)"
  have fa: "status fa = CONNECTION_FAILED" "auto_reconnect fa" "\<not> no_host fa"
    "reconnect_attempts fa = 0" "reconnect_timer fa = None"
    "status_observer_raises CONNECTION_FAILED fa"
    by (simp_all add: fa_def failure_averse_wrapper_def new_wrapper_def connect_def
        connect_handler_def set_status_def raised_def no_host_def status_observer_raises_def Let_def)
  have nh: "\<not> no_host (run (outage 0) new_wrapper)" by (simp add: outage_0 no_host_def)
  have q: "\<not> status_observer_raises s (run (outage 0) new_wrapper)" for s
    by (simp add: status_observer_raises_def outage_0)
  show ?thesis
    using connect_sync_failure[of new_wrapper "Rc 1" "''broker''" 1883 None None]
      connect_sync_failure[of observed_wrapper LibRaises "''broker''" 1883 None None]
      connect_sync_failure[of failure_averse_wrapper LibRaises "''broker''" 1883 None None]
      connect_sync_failure[of failure_averse_wrapper "Rc 1" "''broker''" 1883 None None]
      connect_sync_failure[of "run (outage 0) new_wrapper" LibRaises]
      connect_sync_failure[of fa LibRaises]
    unfolding fa_def[symmetric]
    by (simp add: c o obs st fa nh q outage_0)
qed

text \<open>
  Claim C2 as stated fails on a new wrapper (auto-reconnect is enabled by default, no
  observer is registered): the library's connect raises, \<open>connect\<close> returns \<open>False\<close>
  with the status ConnectionFailed and the host recorded, and no timer is stored and the
  attempt counter is still 0.
\<close>

theorem connect_schedules_nothing_counterexample:
  "fst (connect ''broker'' 1883 None None LibRaises new_wrapper) = Inr False \<and>
   status (snd (connect ''broker'' 1883 None None LibRaises new_wrapper)) = CONNECTION_FAILED \<and>
   auto_reconnect (snd (connect ''broker'' 1883 None None LibRaises new_wrapper)) \<and>
   host (snd (connect ''broker'' 1883 None None LibRaises new_wrapper)) = Some ''broker'' \<and>
   reconnect_timer (snd (connect ''broker'' 1883 None None LibRaises new_wrapper)) = None \<and>
   reconnect_attempts (snd (connect ''broker'' 1883 None None LibRaises new_wrapper)) = 0"
  by (simp add: new_wrapper_def connect_def connect_handler_def set_status_def Let_def)

subsection \<open>Disconnect\<close>








subsection \<open>Subscription registry\<close>

lemma keys_dict_set: "set (dict_keys (dict_set k v kvs)) = insert k (set (dict_keys kvs))"
  by (induction k v kvs rule: dict_set.induct) (auto simp: dict_keys_def split: if_splits)

lemma keys_dict_pop: "set (dict_keys (dict_pop k kvs)) \<subseteq> set (dict_keys kvs)"
  by (induction k kvs rule: dict_pop.induct) (auto simp: dict_keys_def split: if_splits)

lemma set_status_fields [simp]:
  "status (snd (set_status s st)) = s"
  "host (snd (set_status s st)) = host st"
  "on_status_change (snd (set_status s st)) = on_status_change st"
  "on_client_error (snd (set_status s st)) = on_client_error st"
  "auto_reconnect (snd (set_status s st)) = auto_reconnect st"
  "reconnect_timer (snd (set_status s st)) = reconnect_timer st"
  "reconnect_attempts (snd (set_status s st)) = reconnect_attempts st"
  "subscribed_topics (snd (set_status s st)) = subscribed_topics st"
  "pending_subscriptions (snd (set_status s st)) = pending_subscriptions st"
  by (simp_all add: set_status_result(2))

lemma pair_sum_case:
  "(case p of (Inl e, s) \<Rightarrow> f e s | (Inr x, s) \<Rightarrow> g x s) =
   (case fst p of Inl e \<Rightarrow> f e (snd p) | Inr x \<Rightarrow> g x (snd p))"
  by (cases p; cases "fst p") auto

lemma report_client_error_registry [simp]:
  "pending_subscriptions (snd (report_client_error msg st)) = pending_subscriptions st"
  "subscribed_topics (snd (report_client_error msg st)) = subscribed_topics st"
  "status (snd (report_client_error msg st)) = status st"
  "on_client_error (snd (report_client_error msg st)) = on_client_error st"
  by (simp_all add: report_client_error_def split: option.splits)

lemma report_client_error_fst:
  "fst (report_client_error msg st) =
     (if error_observer_raises msg st then Inl HookFailure else Inr ())"
  by (simp add: report_client_error_def error_observer_raises_def raised_def
      split: option.splits hook_result.splits)

lemma registry_handler_registry [simp]:
  "pending_subscriptions (snd (registry_handler msg st)) = pending_subscriptions st"
  "subscribed_topics (snd (registry_handler msg st)) = subscribed_topics st"
  "status (snd (registry_handler msg st)) = status st"
  "on_client_error (snd (registry_handler msg st)) = on_client_error st"
  by (simp_all add: registry_handler_def pair_sum_case split: sum.splits)

lemma registry_handler_fst:
  "fst (registry_handler msg st) =
     (if error_observer_raises msg st then Inl HookFailure else Inr False)"
  by (simp add: registry_handler_def pair_sum_case report_client_error_fst)

lemma error_observer_raises_cong:
  "on_client_error st' = on_client_error st \<Longrightarrow>
   error_observer_raises msg st' = error_observer_raises msg st"
  by (simp add: error_observer_raises_def)

lemma error_observer_raises_report [simp]:
  "error_observer_raises msg (snd (report_client_error m st)) = error_observer_raises msg st"
  by (simp add: error_observer_raises_def)

lemma subscribe_raises_cong:
  "on_client_error st' = on_client_error st \<Longrightarrow> subscribe_raises lib st' = subscribe_raises lib st"
  by (simp add: subscribe_raises_def error_observer_raises_def split: lib_result.splits)

lemma cancel_registry [simp]:
  "pending_subscriptions (cancel_reconnect_timer st) = pending_subscriptions st"
  "subscribed_topics (cancel_reconnect_timer st) = subscribed_topics st"
  "status (cancel_reconnect_timer st) = status st"
  by (simp_all add: cancel_reconnect_timer_eq)

lemma schedule_registry [simp]:
  "pending_subscriptions (snd (schedule_reconnect st)) = pending_subscriptions st"
  "subscribed_topics (snd (schedule_reconnect st)) = subscribed_topics st"
  by (simp_all add: schedule_reconnect_def Let_def split: sum.splits)

lemma connect_handler_registry [simp]:
  "pending_subscriptions (snd (connect_handler st)) = pending_subscriptions st"
  "subscribed_topics (snd (connect_handler st)) = subscribed_topics st"
  by (simp_all add: connect_handler_def pair_sum_case split: sum.splits)

lemma connect_registry [simp]:
  "pending_subscriptions (snd (connect h p usr pwd lib st)) = pending_subscriptions st"
  "subscribed_topics (snd (connect h p usr pwd lib st)) = subscribed_topics st"
  by (simp_all add: connect_def Let_def pair_sum_case split: lib_result.splits sum.splits)

lemma attempt_reconnect_registry [simp]:
  "pending_subscriptions (snd (attempt_reconnect lib st)) = pending_subscriptions st"
  "subscribed_topics (snd (attempt_reconnect lib st)) = subscribed_topics st"
  by (simp_all add: attempt_reconnect_def pair_sum_case split: option.splits sum.splits)

lemma disconnect_handler_registry [simp]:
  "pending_subscriptions (snd (disconnect_handler st)) = pending_subscriptions st"
  "subscribed_topics (snd (disconnect_handler st)) = subscribed_topics st"
  by (simp_all add: disconnect_handler_def pair_sum_case split: sum.splits)

lemma disconnect_registry [simp]:
  "pending_subscriptions (snd (disconnect lib st)) = pending_subscriptions st"
  "subscribed_topics (snd (disconnect lib st)) = subscribed_topics st"
  by (simp_all add: disconnect_def Let_def pair_sum_case split: lib_result.splits sum.splits)

lemma callbacks_registry [simp]:
  "pending_subscriptions (snd (on_disconnect rc st)) = pending_subscriptions st"
  "subscribed_topics (snd (on_disconnect rc st)) = subscribed_topics st"
  "pending_subscriptions (snd (on_connect_fail st)) = pending_subscriptions st"
  "subscribed_topics (snd (on_connect_fail st)) = subscribed_topics st"
  "pending_subscriptions (snd (notify_connected st)) = pending_subscriptions st"
  "subscribed_topics (snd (notify_connected st)) = subscribed_topics st"
  "pending_subscriptions (set_auto_reconnect b st) = pending_subscriptions st"
  "subscribed_topics (set_auto_reconnect b st) = subscribed_topics st"
  by (simp_all add: on_disconnect_def on_connect_fail_def notify_connected_def
      set_auto_reconnect_def Let_def pair_sum_case split: sum.splits option.splits)

lemma subscribe_connected_all:
  assumes "status st = CONNECTED"
  shows "status (snd (subscribe_to_topic tp q lib st)) = CONNECTED \<and>
     pending_subscriptions (snd (subscribe_to_topic tp q lib st)) = pending_subscriptions st \<and>
     on_client_error (snd (subscribe_to_topic tp q lib st)) = on_client_error st \<and>
     fst (subscribe_to_topic tp q lib st) =
       (if lib = Rc 0 then Inr True
        else if subscribe_raises lib st then Inl HookFailure else Inr False) \<and>
     set (dict_keys (subscribed_topics (snd (subscribe_to_topic tp q lib st)))) =
       (if lib = Rc 0 then insert tp (set (dict_keys (subscribed_topics st)))
        else set (dict_keys (subscribed_topics st)))"
proof (cases lib)
  case (Rc r)
  show ?thesis
  proof (cases "r = 0")
    case True
    with Rc assms show ?thesis
      by (simp add: subscribe_to_topic_def is_connected_def keys_dict_set)
  next
    case False
    with Rc assms show ?thesis
      by (simp add: subscribe_to_topic_def is_connected_def pair_sum_case report_client_error_fst
          registry_handler_fst subscribe_raises_def)
  qed
next
  case LibRaises
  with assms show ?thesis
    by (simp add: subscribe_to_topic_def is_connected_def registry_handler_fst subscribe_raises_def)
qed

lemma subscribe_not_connected:
  assumes "\<not> is_connected st"
  shows "subscribe_to_topic tp q lib st =
           (Inr (tp \<notin> set (pending_subscriptions st)),
            if tp \<in> set (pending_subscriptions st) then st
            else st\<lparr>pending_subscriptions := pending_subscriptions st @ [tp]\<rparr>)"
  using assms by (simp add: subscribe_to_topic_def queue_subscription_def)

lemma flush_pending_connected:
  "status st = CONNECTED \<Longrightarrow>
   on_client_error st = on_client_error st0 \<Longrightarrow>
   pending_subscriptions st = kept @ tps \<Longrightarrow>
   \<forall>k \<in> set kept. sr k \<noteq> Rc 0 \<Longrightarrow>
   pending_subscriptions (snd (flush_pending sr tps st)) =
     kept @ filter (\<lambda>u. sr u \<noteq> Rc 0) (takeWhile (\<lambda>u. \<not> subscribe_raises (sr u) st0) tps)
          @ dropWhile (\<lambda>u. \<not> subscribe_raises (sr u) st0) tps \<and>
   set (dict_keys (subscribed_topics (snd (flush_pending sr tps st)))) =
     set (dict_keys (subscribed_topics st))
       \<union> {u \<in> set (takeWhile (\<lambda>u. \<not> subscribe_raises (sr u) st0) tps). sr u = Rc 0} \<and>
   fst (flush_pending sr tps st) =
     (if \<forall>u \<in> set tps. \<not> subscribe_raises (sr u) st0 then Inr () else Inl HookFailure)"
proof (induction tps arbitrary: st kept)
  case Nil
  then show ?case by simp
next
  case (Cons tp tps)
  let ?P = "\<lambda>u. \<not> subscribe_raises (sr u) st0"
  define r where "r = subscribe_to_topic tp 0 (sr tp) st"
  define st1 where "st1 = snd r"
  note sc = subscribe_connected_all[OF Cons.prems(1), of tp 0 "sr tp", folded r_def, folded st1_def]
  have raises_eq: "subscribe_raises (sr tp) st = subscribe_raises (sr tp) st0"
    by (rule subscribe_raises_cong[OF Cons.prems(2)])
  have s1: "status st1 = CONNECTED" "pending_subscriptions st1 = kept @ tp # tps"
    "on_client_error st1 = on_client_error st0"
    using sc Cons.prems(2,3) by simp_all
  have r_eq: "r = (fst r, st1)" by (simp add: st1_def)
  show ?case
  proof (cases "sr tp = Rc 0")
    case True
    then have P: "?P tp" by (simp add: subscribe_raises_def)
    let ?st2 = "st1\<lparr>pending_subscriptions := remove1 tp (pending_subscriptions st1)\<rparr>"
    have fr: "fst r = Inr True" using sc True by simp
    have fl: "flush_pending sr (tp # tps) st = flush_pending sr tps ?st2"
      using r_eq fr by (simp add: r_def[symmetric])
    have "tp \<notin> set kept" using Cons.prems(4) True by auto
    then have p2: "pending_subscriptions ?st2 = kept @ tps"
      by (simp add: s1(2) remove1_append)
    have k2: "set (dict_keys (subscribed_topics ?st2)) = insert tp (set (dict_keys (subscribed_topics st)))"
      using sc True by simp
    from Cons.IH[of ?st2 kept] s1 p2 Cons.prems(4)
    show ?thesis unfolding fl using True P k2 by auto
  next
    case False
    show ?thesis
    proof (cases "?P tp")
      case True
      have fr: "fst r = Inr False" using sc False True raises_eq by simp
      have fl: "flush_pending sr (tp # tps) st = flush_pending sr tps st1"
        using r_eq fr by (simp add: r_def[symmetric])
      have p1: "pending_subscriptions st1 = (kept @ [tp]) @ tps" using s1(2) by simp
      have k1: "\<forall>k \<in> set (kept @ [tp]). sr k \<noteq> Rc 0" using Cons.prems(4) False by simp
      have ks: "set (dict_keys (subscribed_topics st1)) = set (dict_keys (subscribed_topics st))"
        using sc False by simp
      from Cons.IH[OF s1(1) s1(3) p1 k1]
      show ?thesis unfolding fl using False True ks by auto
    next
      case nP: False
      have fr: "fst r = Inl HookFailure" using sc False nP raises_eq by simp
      have fl: "flush_pending sr (tp # tps) st = (Inl HookFailure, st1)"
        using r_eq fr by (simp add: r_def[symmetric])
      have ks: "set (dict_keys (subscribed_topics st1)) = set (dict_keys (subscribed_topics st))"
        using sc False by simp
      show ?thesis unfolding fl using nP s1 ks by simp
    qed
  qed
qed

lemma on_connect_observer_raises:
  assumes "status st \<noteq> CONNECTED" "status_observer_raises CONNECTED st"
  shows "fst (on_connect 0 sr st) = Inl HookFailure"
    and "pending_subscriptions (snd (on_connect 0 sr st)) = pending_subscriptions st"
    and "subscribed_topics (snd (on_connect 0 sr st)) = subscribed_topics st"
  using assms by (simp_all add: on_connect_def pair_sum_case set_status_result(1))

lemma on_connect_flushes:
  assumes "status st = CONNECTED \<or> \<not> status_observer_raises CONNECTED st"
  shows "pending_subscriptions (snd (on_connect 0 sr st)) =
           filter (\<lambda>u. sr u \<noteq> Rc 0)
             (takeWhile (\<lambda>u. \<not> subscribe_raises (sr u) st) (pending_subscriptions st))
           @ dropWhile (\<lambda>u. \<not> subscribe_raises (sr u) st) (pending_subscriptions st)"
    and "set (dict_keys (subscribed_topics (snd (on_connect 0 sr st)))) =
           set (dict_keys (subscribed_topics st))
             \<union> {u \<in> set (takeWhile (\<lambda>u. \<not> subscribe_raises (sr u) st)
                              (pending_subscriptions st)). sr u = Rc 0}"
proof -
  define st3 where "st3 = cancel_reconnect_timer
    ((snd (set_status CONNECTED st))\<lparr>connection_attempts := 0, reconnect_attempts := 0,
                                        last_error := None\<rparr>)"
  have s3: "status st3 = CONNECTED" "on_client_error st3 = on_client_error st"
    "pending_subscriptions st3 = [] @ pending_subscriptions st"
    "subscribed_topics st3 = subscribed_topics st"
    by (simp_all add: st3_def cancel_reconnect_timer_eq)
  have p3: "pending_subscriptions st3 = pending_subscriptions st" using s3(3) by simp
  have oc: "on_connect 0 sr st =
     (case flush_pending sr (pending_subscriptions st3) st3 of
        (Inl e, st4) \<Rightarrow> (Inl e, st4)
      | (Inr _, st4) \<Rightarrow> notify_connected st4)"
    using assms
    by (auto simp: on_connect_def pair_sum_case set_status_result(1) Let_def st3_def
        cancel_reconnect_timer_eq split: sum.splits)
  have reg: "pending_subscriptions (snd (on_connect 0 sr st)) =
      pending_subscriptions (snd (flush_pending sr (pending_subscriptions st) st3))"
    "subscribed_topics (snd (on_connect 0 sr st)) =
      subscribed_topics (snd (flush_pending sr (pending_subscriptions st) st3))"
    unfolding oc p3 by (simp_all add: pair_sum_case split: sum.splits)
  note f = flush_pending_connected[OF s3(1) s3(2) s3(3), of sr]
  show "pending_subscriptions (snd (on_connect 0 sr st)) =
           filter (\<lambda>u. sr u \<noteq> Rc 0)
             (takeWhile (\<lambda>u. \<not> subscribe_raises (sr u) st) (pending_subscriptions st))
           @ dropWhile (\<lambda>u. \<not> subscribe_raises (sr u) st) (pending_subscriptions st)"
    using f by (simp add: reg)
  show "set (dict_keys (subscribed_topics (snd (on_connect 0 sr st)))) =
           set (dict_keys (subscribed_topics st))
             \<union> {u \<in> set (takeWhile (\<lambda>u. \<not> subscribe_raises (sr u) st)
                              (pending_subscriptions st)). sr u = Rc 0}"
    using f by (simp add: reg s3(4))
qed

lemma on_connect_refused_registry:
  "rc \<noteq> 0 \<Longrightarrow> pending_subscriptions (snd (on_connect rc sr st)) = pending_subscriptions st"
  "rc \<noteq> 0 \<Longrightarrow> subscribed_topics (snd (on_connect rc sr st)) = subscribed_topics st"
  by (simp_all add: on_connect_def pair_sum_case split: sum.splits)

lemma unsubscribe_registry:
  "pending_subscriptions (snd (unsubscribe_from_topic tp lib st)) = pending_subscriptions st"
  "set (dict_keys (subscribed_topics (snd (unsubscribe_from_topic tp lib st))))
     \<subseteq> set (dict_keys (subscribed_topics st))"
  using keys_dict_pop[of tp "subscribed_topics st"]
  by (simp_all add: unsubscribe_from_topic_def pair_sum_case split: lib_result.splits sum.splits)

lemma on_connect_keeps_disjoint:
  assumes "registry_disjoint st" "distinct (pending_subscriptions st)"
  shows "registry_disjoint (snd (on_connect 0 sr st)) \<and>
         distinct (pending_subscriptions (snd (on_connect 0 sr st)))"
proof (cases "status st = CONNECTED \<or> \<not> status_observer_raises CONNECTED st")
  case False
  then show ?thesis
    using assms on_connect_observer_raises(2,3)[of st sr]
    by (simp add: registry_disjoint_def)
next
  case True
  let ?P = "\<lambda>u. \<not> subscribe_raises (sr u) st"
  let ?xs = "pending_subscriptions st"
  let ?a = "takeWhile ?P ?xs" and ?b = "dropWhile ?P ?xs"
  have "distinct (?a @ ?b)" using assms(2) by simp
  then have d: "distinct ?a" "distinct ?b" "set ?a \<inter> set ?b = {}"
    by (simp_all only: distinct_append)
  have sub: "set ?a \<subseteq> set ?xs" "set ?b \<subseteq> set ?xs"
    by (auto dest: set_takeWhileD set_dropWhileD)
  note f = on_connect_flushes[OF True, of sr]
  have "distinct (pending_subscriptions (snd (on_connect 0 sr st)))"
    unfolding f(1) using d by auto
  moreover have "registry_disjoint (snd (on_connect 0 sr st))"
    unfolding registry_disjoint_def f using assms(1) d(3) sub
    by (auto simp: registry_disjoint_def)
  ultimately show ?thesis by simp
qed

lemma step_keeps_disjoint:
  assumes "registry_disjoint st" "distinct (pending_subscriptions st)" and "subscribes_fresh e st"
  shows "registry_disjoint (step e st) \<and> distinct (pending_subscriptions (step e st))"
proof (cases e)
  case (Subscribe tp q lib)
  show ?thesis
  proof (cases "is_connected st")
    case True
    then have c: "status st = CONNECTED" by (simp add: is_connected_def)
    from assms Subscribe True have "tp \<notin> set (pending_subscriptions st)" by simp
    with assms(1,2) show ?thesis
      using subscribe_connected_all[OF c, of tp q lib]
      by (auto simp: Subscribe registry_disjoint_def split: if_splits)
  next
    case False
    from assms Subscribe False have "tp \<notin> set (dict_keys (subscribed_topics st))" by simp
    with assms(1,2) show ?thesis
      by (auto simp: Subscribe registry_disjoint_def subscribe_not_connected[OF False])
  qed
next
  case (Unsubscribe tp lib)
  with assms(1,2) show ?thesis
    using unsubscribe_registry[of tp lib st]
    by (auto simp: registry_disjoint_def)
next
  case (OnConnect rc sr)
  show ?thesis
  proof (cases "rc = 0")
    case True
    then show ?thesis using on_connect_keeps_disjoint[OF assms(1,2), of sr] by (simp add: OnConnect)
  next
    case False
    with assms(1,2) show ?thesis
      by (simp add: OnConnect registry_disjoint_def on_connect_refused_registry)
  qed
qed (use assms(1,2) in \<open>simp_all add: registry_disjoint_def\<close>)

lemma run_keeps_disjoint:
  "registry_disjoint st \<Longrightarrow> distinct (pending_subscriptions st) \<Longrightarrow> run_fresh es st \<Longrightarrow>
   registry_disjoint (run es st) \<and> distinct (pending_subscriptions (run es st))"
proof (induction es arbitrary: st)
  case Nil
  then show ?case by simp
next
  case (Cons e es)
  then show ?case using step_keeps_disjoint[of st e] by simp
qed

text \<open>
  Claim C3, as amended. The pending list and the active map of a new wrapper are
  disjoint, and they stay disjoint under every sequence of events (connect, disconnect,
  subscribe, unsubscribe, connect acknowledgment, connection loss, connect failure,
  reconnect timer, auto-reconnect setting) in which no subscribe names a topic that the
  other collection already holds. The same holds from every state whose pending list
  and active map are disjoint and whose pending list has no duplicates, and such a run
  puts no duplicates in the pending list.
\<close>

theorem registry_disjoint_under_fresh_subscribes:
  "registry_disjoint new_wrapper \<and>
   (run_fresh es new_wrapper \<longrightarrow> registry_disjoint (run es new_wrapper)) \<and>
   (registry_disjoint st \<and> distinct (pending_subscriptions st) \<and> run_fresh es st \<longrightarrow>
      registry_disjoint (run es st) \<and> distinct (pending_subscriptions (run es st)))"
proof -
  have n: "registry_disjoint new_wrapper" "distinct (pending_subscriptions new_wrapper)"
    by (simp_all add: registry_disjoint_def new_wrapper_def dict_keys_def)
  show ?thesis
    using n run_keeps_disjoint[of st es] run_keeps_disjoint[OF n, of es] by blast
qed

theorem registry_disjoint_under_fresh_subscribes_witness:
  "registry_disjoint new_wrapper \<and> run_fresh subscribe_then_connect new_wrapper \<and>
   registry_disjoint (run subscribe_then_connect new_wrapper) \<and>
   pending_subscriptions (run subscribe_then_connect new_wrapper) = [''c''] \<and>
   get_subscribed_topics (run subscribe_then_connect new_wrapper) = [(''a'', 0), (''b'', 2)] \<and>
   registry_disjoint error_averse_wrapper \<and> distinct (pending_subscriptions error_averse_wrapper) \<and>
   pending_subscriptions (run [OnConnect 0 refuse_b] error_averse_wrapper) = [''b'', ''c''] \<and>
   get_subscribed_topics (run [OnConnect 0 refuse_b] error_averse_wrapper) = [(''a'', 0)] \<and>
   registry_disjoint (run [OnConnect 0 refuse_b] error_averse_wrapper)"
proof -
  have e: "pending_subscriptions (run subscribe_then_connect new_wrapper) = [''c''] \<and>
    get_subscribed_topics (run subscribe_then_connect new_wrapper) = [(''a'', 0), (''b'', 2)] \<and>
    run_fresh subscribe_then_connect new_wrapper"
    by (simp add: subscribe_then_connect_def new_wrapper_def connect_def on_connect_def
        set_status_def cancel_reconnect_timer_eq subscribe_to_topic_def is_connected_def
        on_disconnect_def schedule_reconnect_def no_host_def backoff_delay_def float_of_pow2_def
        queue_subscription_def notify_connected_def get_subscribed_topics_def dict_keys_def Let_def)
  have a: "pending_subscriptions (run [OnConnect 0 refuse_b] error_averse_wrapper) = [''b'', ''c''] \<and>
    get_subscribed_topics (run [OnConnect 0 refuse_b] error_averse_wrapper) = [(''a'', 0)] \<and>
    registry_disjoint error_averse_wrapper \<and> distinct (pending_subscriptions error_averse_wrapper)"
    by (simp add: error_averse_wrapper_def refuse_b_def new_wrapper_def on_connect_def
        set_status_def cancel_reconnect_timer_eq subscribe_to_topic_def is_connected_def
        report_client_error_def registry_handler_def raised_def get_subscribed_topics_def
        registry_disjoint_def dict_keys_def Let_def)
  show ?thesis
    using registry_disjoint_under_fresh_subscribes[of subscribe_then_connect new_wrapper]
      registry_disjoint_under_fresh_subscribes[of "[OnConnect 0 refuse_b]" error_averse_wrapper] e a
    by simp
qed

text \<open>
  Claim C3 as stated fails on a session that subscribes to a topic while connected,
  loses the connection and subscribes to the same topic again: the topic is then both
  pending and active.
\<close>

theorem pending_and_active_counterexample:
  "pending_subscriptions (run resubscribe_after_loss new_wrapper) = [''a''] \<and>
   get_subscribed_topics (run resubscribe_after_loss new_wrapper) = [(''a'', 1)] \<and>
   \<not> registry_disjoint (run resubscribe_after_loss new_wrapper)"
  by (simp add: resubscribe_after_loss_def new_wrapper_def connect_def on_connect_def set_status_def
      cancel_reconnect_timer_eq subscribe_to_topic_def is_connected_def on_disconnect_def
      schedule_reconnect_def no_host_def backoff_delay_def float_of_pow2_def queue_subscription_def
      notify_connected_def get_subscribed_topics_def registry_disjoint_def dict_keys_def Let_def)

text \<open>
  Claim C7, as amended. A subscribe issued while not connected leaves the active map as
  it is; a topic that is not pending yet is appended to the pending list and the call
  returns \<open>True\<close>, and for a topic that is pending already the list is unchanged and the
  call returns \<open>False\<close>. On a later connect acknowledgment with code 0, when the
  status observer does not raise on Connected and no refused subscribe request makes the
  error observer raise out of \<open>subscribe_to_topic\<close>, a pending topic whose subscribe
  request the library accepts is in \<open>get_subscribed_topics\<close> and no longer pending. In
  general the pending topics are tried in order up to the first one whose refusal raises:
  of those in front of it the accepted ones are moved to the active map and the refused
  ones stay pending, and it and all topics behind it stay pending. When the status
  observer raises on Connected, its exception leaves the handler and nothing is moved.
\<close>

theorem subscribe_while_not_connected:
  "(\<not> is_connected st \<longrightarrow>
      fst (subscribe_to_topic tp q lib st) = Inr (tp \<notin> set (pending_subscriptions st)) \<and>
      pending_subscriptions (snd (subscribe_to_topic tp q lib st)) =
        (if tp \<in> set (pending_subscriptions st) then pending_subscriptions st
         else pending_subscriptions st @ [tp]) \<and>
      get_subscribed_topics (snd (subscribe_to_topic tp q lib st)) = get_subscribed_topics st) \<and>
   (tp \<in> set (pending_subscriptions st) \<and> sr tp = Rc 0 \<and>
    (status st = CONNECTED \<or> \<not> status_observer_raises CONNECTED st) \<and>
    (\<forall>u \<in> set (pending_subscriptions st). \<not> subscribe_raises (sr u) st) \<longrightarrow>
      tp \<in> set (dict_keys (get_subscribed_topics (snd (on_connect 0 sr st)))) \<and>
      tp \<notin> set (pending_subscriptions (snd (on_connect 0 sr st)))) \<and>
   (status st = CONNECTED \<or> \<not> status_observer_raises CONNECTED st \<longrightarrow>
      pending_subscriptions (snd (on_connect 0 sr st)) =
        filter (\<lambda>u. sr u \<noteq> Rc 0)
          (takeWhile (\<lambda>u. \<not> subscribe_raises (sr u) st) (pending_subscriptions st))
        @ dropWhile (\<lambda>u. \<not> subscribe_raises (sr u) st) (pending_subscriptions st) \<and>
      set (dict_keys (get_subscribed_topics (snd (on_connect 0 sr st)))) =
        set (dict_keys (get_subscribed_topics st))
          \<union> {u \<in> set (takeWhile (\<lambda>u. \<not> subscribe_raises (sr u) st)
                           (pending_subscriptions st)). sr u = Rc 0}) \<and>
   (status st \<noteq> CONNECTED \<and> status_observer_raises CONNECTED st \<longrightarrow>
      fst (on_connect 0 sr st) = Inl HookFailure \<and>
      pending_subscriptions (snd (on_connect 0 sr st)) = pending_subscriptions st \<and>
      get_subscribed_topics (snd (on_connect 0 sr st)) = get_subscribed_topics st)"
proof (intro conjI impI)
  assume "\<not> is_connected st"
  then show "fst (subscribe_to_topic tp q lib st) = Inr (tp \<notin> set (pending_subscriptions st))"
    and "pending_subscriptions (snd (subscribe_to_topic tp q lib st)) =
        (if tp \<in> set (pending_subscriptions st) then pending_subscriptions st
         else pending_subscriptions st @ [tp])"
    and "get_subscribed_topics (snd (subscribe_to_topic tp q lib st)) = get_subscribed_topics st"
    by (simp_all add: subscribe_not_connected get_subscribed_topics_def)
next
  assume a: "tp \<in> set (pending_subscriptions st) \<and> sr tp = Rc 0 \<and>
    (status st = CONNECTED \<or> \<not> status_observer_raises CONNECTED st) \<and>
    (\<forall>u \<in> set (pending_subscriptions st). \<not> subscribe_raises (sr u) st)"
  then have ok: "status st = CONNECTED \<or> \<not> status_observer_raises CONNECTED st" by simp
  from a have tw: "takeWhile (\<lambda>u. \<not> subscribe_raises (sr u) st) (pending_subscriptions st)
      = pending_subscriptions st" by simp
  from a have dw: "dropWhile (\<lambda>u. \<not> subscribe_raises (sr u) st) (pending_subscriptions st) = []"
    by simp
  note f = on_connect_flushes[OF ok, of sr, unfolded tw dw]
  show "tp \<in> set (dict_keys (get_subscribed_topics (snd (on_connect 0 sr st))))"
    using a f(2) by (simp add: get_subscribed_topics_def)
  show "tp \<notin> set (pending_subscriptions (snd (on_connect 0 sr st)))"
    using a f(1) by simp
next
  assume ok: "status st = CONNECTED \<or> \<not> status_observer_raises CONNECTED st"
  show "pending_subscriptions (snd (on_connect 0 sr st)) =
        filter (\<lambda>u. sr u \<noteq> Rc 0)
          (takeWhile (\<lambda>u. \<not> subscribe_raises (sr u) st) (pending_subscriptions st))
        @ dropWhile (\<lambda>u. \<not> subscribe_raises (sr u) st) (pending_subscriptions st)"
    by (rule on_connect_flushes(1)[OF ok])
  show "set (dict_keys (get_subscribed_topics (snd (on_connect 0 sr st)))) =
        set (dict_keys (get_subscribed_topics st))
          \<union> {u \<in> set (takeWhile (\<lambda>u. \<not> subscribe_raises (sr u) st)
                           (pending_subscriptions st)). sr u = Rc 0}"
    using on_connect_flushes(2)[OF ok, of sr] by (simp add: get_subscribed_topics_def)
next
  assume a: "status st \<noteq> CONNECTED \<and> status_observer_raises CONNECTED st"
  then have a1: "status st \<noteq> CONNECTED" and a2: "status_observer_raises CONNECTED st" by simp_all
  show "fst (on_connect 0 sr st) = Inl HookFailure"
    by (rule on_connect_observer_raises(1)[OF a1 a2])
  show "pending_subscriptions (snd (on_connect 0 sr st)) = pending_subscriptions st"
    by (rule on_connect_observer_raises(2)[OF a1 a2])
  show "get_subscribed_topics (snd (on_connect 0 sr st)) = get_subscribed_topics st"
    using on_connect_observer_raises(3)[OF a1 a2, of sr] by (simp add: get_subscribed_topics_def)
qed

theorem subscribe_while_not_connected_witness:
  "\<not> is_connected new_wrapper \<and>
   fst (subscribe_to_topic ''a'' 1 (Rc 0) new_wrapper) = Inr True \<and>
   pending_subscriptions (snd (subscribe_to_topic ''a'' 1 (Rc 0) new_wrapper)) = [''a''] \<and>
   get_subscribed_topics (snd (subscribe_to_topic ''a'' 1 (Rc 0) new_wrapper)) = [] \<and>
   ''a'' \<in> set (pending_subscriptions (run (take 2 subscribe_then_connect) new_wrapper)) \<and>
   ''a'' \<in> set (dict_keys (get_subscribed_topics
            (snd (on_connect 0 (\<lambda>_. Rc 0) (run (take 2 subscribe_then_connect) new_wrapper))))) \<and>
   ''a'' \<notin> set (pending_subscriptions
            (snd (on_connect 0 (\<lambda>_. Rc 0) (run (take 2 subscribe_then_connect) new_wrapper)))) \<and>
   pending_subscriptions (snd (on_connect 0 refuse_b error_averse_wrapper)) = [''b'', ''c''] \<and>
   set (dict_keys (get_subscribed_topics (snd (on_connect 0 refuse_b error_averse_wrapper)))) = {''a''} \<and>
   status_observer_raises CONNECTED
     (snd (subscribe_to_topic ''a'' 1 (Rc 0) connection_averse_wrapper)) \<and>
   fst (on_connect 0 (\<lambda>_. Rc 0) (snd (subscribe_to_topic ''a'' 1 (Rc 0) connection_averse_wrapper)))
     = Inl HookFailure \<and>
   pending_subscriptions
     (snd (on_connect 0 (\<lambda>_. Rc 0) (snd (subscribe_to_topic ''a'' 1 (Rc 0) connection_averse_wrapper))))
     = [''a'']"
proof -
  define s2 where "s2 = run (take 2 subscribe_then_connect) new_wrapper"
  have s2: "pending_subscriptions s2 = [''a'']" "\<not> status_observer_raises CONNECTED s2"
    "\<not> subscribe_raises l s2" for l
    by (simp_all add: s2_def subscribe_then_connect_def new_wrapper_def subscribe_to_topic_def
        is_connected_def queue_subscription_def connect_def set_status_def
        status_observer_raises_def subscribe_raises_def error_observer_raises_def Let_def
        split: lib_result.splits)
  define ca where "ca = snd (subscribe_to_topic ''a'' 1 (Rc 0) connection_averse_wrapper)"
  have ca: "pending_subscriptions ca = [''a'']" "status ca \<noteq> CONNECTED"
    "status_observer_raises CONNECTED ca"
    by (simp_all add: ca_def connection_averse_wrapper_def new_wrapper_def subscribe_to_topic_def
        is_connected_def queue_subscription_def status_observer_raises_def)
  have ea: "pending_subscriptions error_averse_wrapper = [''a'', ''b'', ''c'']"
    "\<not> status_observer_raises CONNECTED error_averse_wrapper"
    "subscribe_raises (refuse_b u) error_averse_wrapper = (u = ''b'')"
    "get_subscribed_topics error_averse_wrapper = []" for u
    by (simp_all add: error_averse_wrapper_def new_wrapper_def status_observer_raises_def
        subscribe_raises_def error_observer_raises_def refuse_b_def get_subscribed_topics_def)
  have n: "\<not> is_connected new_wrapper" by (simp add: new_wrapper_def is_connected_def)
  have p1: "fst (subscribe_to_topic ''a'' 1 (Rc 0) new_wrapper) = Inr True \<and>
     pending_subscriptions (snd (subscribe_to_topic ''a'' 1 (Rc 0) new_wrapper)) = [''a''] \<and>
     get_subscribed_topics (snd (subscribe_to_topic ''a'' 1 (Rc 0) new_wrapper)) = []"
    using subscribe_while_not_connected[of new_wrapper "''a''" 1 "Rc 0"] n
    by (simp add: new_wrapper_def get_subscribed_topics_def)
  have p2: "''a'' \<in> set (dict_keys (get_subscribed_topics (snd (on_connect 0 (\<lambda>_. Rc 0) s2)))) \<and>
     ''a'' \<notin> set (pending_subscriptions (snd (on_connect 0 (\<lambda>_. Rc 0) s2)))"
    using subscribe_while_not_connected[of s2 "''a''" _ _ "\<lambda>_. Rc 0"] by (simp add: s2)
  have p3: "pending_subscriptions (snd (on_connect 0 refuse_b error_averse_wrapper)) = [''b'', ''c''] \<and>
     set (dict_keys (get_subscribed_topics (snd (on_connect 0 refuse_b error_averse_wrapper)))) = {''a''}"
    using subscribe_while_not_connected[of error_averse_wrapper _ _ _ refuse_b]
    by (simp add: ea) (auto simp: refuse_b_def dict_keys_def)
  have p4: "fst (on_connect 0 (\<lambda>_. Rc 0) ca) = Inl HookFailure \<and>
     pending_subscriptions (snd (on_connect 0 (\<lambda>_. Rc 0) ca)) = [''a'']"
    using subscribe_while_not_connected[of ca _ _ _ "\<lambda>_. Rc 0"] by (simp add: ca)
  show ?thesis
    unfolding s2_def[symmetric] ca_def[symmetric]
    using n p1 p2 p3 p4 s2(1) ca(3) by simp
qed

text \<open>
  Claim C7 as stated fails on a second subscribe of the same topic while not connected:
  the topic is pending already and the call returns \<open>False\<close>.
\<close>

theorem subscribe_twice_counterexample:
  "\<not> is_connected (snd (subscribe_to_topic ''a'' 0 (Rc 0) new_wrapper)) \<and>
   fst (subscribe_to_topic ''a'' 0 (Rc 0) new_wrapper) = Inr True \<and>
   fst (subscribe_to_topic ''a'' 0 (Rc 0) (snd (subscribe_to_topic ''a'' 0 (Rc 0) new_wrapper)))
     = Inr False"
  by (simp add: new_wrapper_def subscribe_to_topic_def is_connected_def queue_subscription_def)

end
